theory Spec2Isabelle
  imports Complex_Main "HOL-Library.Char_ord" "HOL-Library.List_Lexorder"
begin

section \<open>Data model\<close>

text \<open>
  The three entity types and the persisted document of \<^verbatim>\<open>src/app/layout.tsx\<close>
  (lines 19-43). The TypeScript fields \<^verbatim>\<open>id\<close> and \<^verbatim>\<open>name\<close> carry a suffix here,
  because \<open>id\<close> is the identity function of HOL. An optional field is an \<open>option\<close>.
  A \<^verbatim>\<open>number\<close> that holds a wage is an \<open>int\<close>, the value of a whole double: the only
  writer of \<^verbatim>\<open>dailyRate\<close> stores the result of \<^verbatim>\<open>Math.round\<close>. The arithmetic on wages
  is that of doubles; it is part of the aggregation.
\<close>

record Contractor =
  id_c :: string
  name_c :: string
  note_c :: "string option"

record Labour =
  id_l :: string
  contractorId :: string
  name_l :: string
  dailyRate :: int

record AttendanceRecord =
  id_a :: string
  labourId :: string
  date :: string
  present :: bool

record AppData =
  contractors :: "Contractor list"
  labours :: "Labour list"
  attendance :: "AttendanceRecord list"

text \<open>The initial value handed to \<^verbatim>\<open>usePersistentState\<close> (lines 102-106).\<close>

definition initialData :: AppData where
  "initialData = \<lparr>contractors = [], labours = [], attendance = []\<rparr>"

text \<open>
  \<^verbatim>\<open>newId\<close> (lines 47-49) glues its prefix to two strings that the runtime supplies:
  \<^verbatim>\<open>Math.random().toString(36).slice(2)\<close> and \<^verbatim>\<open>Date.now().toString(36)\<close>. Both are
  inputs of the model; nothing in the source compares the result with the ids in use.
\<close>

record entropy =
  rnd36 :: string
  now36 :: string

definition newId :: "string \<Rightarrow> entropy \<Rightarrow> string" where
  "newId prefix e = prefix @ ''_'' @ rnd36 e @ ''_'' @ now36 e"

section \<open>Mutation API\<close>

text \<open>
  Every mutation is \<^verbatim>\<open>setData(prev => ...)\<close>; the model is the function from \<open>prev\<close>
  to the new document, with \<open>prev\<close> as the last argument.
\<close>

definition upsertContractor :: "entropy \<Rightarrow> string \<Rightarrow> string option \<Rightarrow> AppData \<Rightarrow> AppData" where
  "upsertContractor e name nt prev =
     prev\<lparr>contractors := contractors prev @ [\<lparr>id_c = newId ''ctr'' e, name_c = name, note_c = nt\<rparr>]\<rparr>"

text \<open>
  In \<^verbatim>\<open>removeContractor\<close> the attendance filter looks the labourer up with
  \<^verbatim>\<open>find\<close>, which yields the first labourer with that id; \<^verbatim>\<open>?.contractorId\<close> of a
  missing labourer is \<^verbatim>\<open>undefined\<close>, which differs from every string.
\<close>

definition removeContractor :: "string \<Rightarrow> AppData \<Rightarrow> AppData" where
  "removeContractor i prev =
     prev\<lparr>contractors := filter (\<lambda>c. id_c c \<noteq> i) (contractors prev),
          labours := filter (\<lambda>l. contractorId l \<noteq> i) (labours prev),
          attendance := filter
            (\<lambda>a. case find (\<lambda>l. id_l l = labourId a) (labours prev) of
                   None \<Rightarrow> True
                 | Some l \<Rightarrow> contractorId l \<noteq> i)
            (attendance prev)\<rparr>"

definition upsertLabour :: "entropy \<Rightarrow> string \<Rightarrow> string \<Rightarrow> int \<Rightarrow> AppData \<Rightarrow> AppData" where
  "upsertLabour e ctr name rate prev =
     prev\<lparr>labours := labours prev @
        [\<lparr>id_l = newId ''lab'' e, contractorId = ctr, name_l = name, dailyRate = rate\<rparr>]\<rparr>"

definition removeLabour :: "string \<Rightarrow> AppData \<Rightarrow> AppData" where
  "removeLabour i prev =
     prev\<lparr>labours := filter (\<lambda>l. id_l l \<noteq> i) (labours prev),
          attendance := filter (\<lambda>a. labourId a \<noteq> i) (attendance prev)\<rparr>"

text \<open>
  \<^verbatim>\<open>setAttendance\<close> (lines 140-149). \<^verbatim>\<open>exists\<close> is the record found or
  \<^verbatim>\<open>undefined\<close>; a record is an object and so truthy. The \<^verbatim>\<open>map\<close> rewrites every
  record that carries the composite id.
\<close>

definition setAttendance :: "string \<Rightarrow> string \<Rightarrow> bool \<Rightarrow> AppData \<Rightarrow> AppData" where
  "setAttendance lid ymd p prev =
     (let i = lid @ '':'' @ ymd;
          exists = find (\<lambda>a. id_a a = i) (attendance prev);
          att = (if exists \<noteq> None
                 then map (\<lambda>a. if id_a a = i then a\<lparr>present := p\<rparr> else a) (attendance prev)
                 else attendance prev @ [\<lparr>id_a = i, labourId = lid, date = ymd, present = p\<rparr>])
      in prev\<lparr>attendance := att\<rparr>)"

subsection \<open>The form handlers\<close>

text \<open>
  The validation of the spec's \<^verbatim>\<open>addContractor\<close> and \<^verbatim>\<open>addLabourer\<close> is in the
  \<^verbatim>\<open>onClick\<close> handlers of the dashboard (lines 256 and 309-314), which call the two
  \<^verbatim>\<open>upsert\<close> functions. Strings are lists of code units below 256;
  \<^verbatim>\<open>String.prototype.trim\<close> strips the white space and line terminators of that range.
  A string is falsy exactly when it is empty.
\<close>

definition jsWhiteSpace :: "char \<Rightarrow> bool" where
  "jsWhiteSpace c = ((of_char c :: nat) \<in> set [9, 10, 11, 12, 13, 32, 160])"

definition trim :: "string \<Rightarrow> string" where
  "trim s = rev (dropWhile jsWhiteSpace (rev (dropWhile jsWhiteSpace s)))"

definition addContractor :: "entropy \<Rightarrow> string \<Rightarrow> string \<Rightarrow> AppData \<Rightarrow> AppData" where
  "addContractor e ctrName ctrNote prev =
     (if trim ctrName = [] then prev
      else upsertContractor e (trim ctrName)
             (if trim ctrNote = [] then None else Some (trim ctrNote)) prev)"

text \<open>
  \<^verbatim>\<open>const rate = Number(labRate)\<close> is a double or one of the three special values.
  A finite double is a rational number, and \<^verbatim>\<open>Math.round\<close> of it is the integer
  nearest to it, the larger one on a tie: \<open>\<lfloor>r + 1/2\<rfloor>\<close>.
\<close>

datatype number = Finite rat | NaN | PosInfinity | NegInfinity

fun Number_isFinite :: "number \<Rightarrow> bool" where
  "Number_isFinite (Finite r) = True"
| "Number_isFinite _ = False"

fun le_zero :: "number \<Rightarrow> bool" where
  "le_zero (Finite r) = (r \<le> 0)"
| "le_zero NegInfinity = True"
| "le_zero _ = False"

definition Math_round :: "rat \<Rightarrow> int" where
  "Math_round r = \<lfloor>r + 1 / 2\<rfloor>"

definition addLabour :: "entropy \<Rightarrow> string \<Rightarrow> string \<Rightarrow> number \<Rightarrow> AppData \<Rightarrow> AppData" where
  "addLabour e labCtr labName rate prev =
     (if labCtr = [] \<or> trim labName = [] \<or> \<not> Number_isFinite rate \<or> le_zero rate then prev
      else case rate of
             Finite r \<Rightarrow> upsertLabour e labCtr (trim labName) (Math_round r) prev
           | _ \<Rightarrow> prev)"

section \<open>The platform's Date\<close>

text \<open>
  \<^verbatim>\<open>Date\<close> is not code of the repository, and what it returns depends on the time zone of
  the browser and its rules. The functions of the repository are therefore written against
  the part of \<^verbatim>\<open>Date\<close> that they use, for any type \<open>'d\<close> of Date objects: the
  constructor \<^verbatim>\<open>new Date(year, monthIndex, day)\<close>, the accessors of the local fields and
  \<^verbatim>\<open>toISOString\<close>. A Number that may be \<^verbatim>\<open>NaN\<close> is an \<open>int option\<close> with \<open>None\<close>
  for \<^verbatim>\<open>NaN\<close>: the accessors return \<^verbatim>\<open>NaN\<close> on an Invalid Date, and the constructor is
  handed what they return. \<^verbatim>\<open>toISOString\<close> throws a \<^verbatim>\<open>RangeError\<close> on an Invalid Date,
  which is the result \<open>None\<close>.
\<close>

record 'd platform =
  newDate :: "int option \<Rightarrow> int option \<Rightarrow> int option \<Rightarrow> 'd"
  getFullYear :: "'d \<Rightarrow> int option"
  getMonth :: "'d \<Rightarrow> int option"
  getDate :: "'d \<Rightarrow> int option"
  getDay :: "'d \<Rightarrow> int option"
  toISOString :: "'d \<Rightarrow> string option"

section \<open>Date and calendar utilities\<close>

text \<open>
  Lines 59-84 of the source. \<^verbatim>\<open>slice(0, 10)\<close> keeps the first ten code units, and an
  exception thrown by \<^verbatim>\<open>toISOString\<close> passes through \<^verbatim>\<open>toYMD\<close>. A sum with
  \<^verbatim>\<open>NaN\<close> is \<^verbatim>\<open>NaN\<close>.
\<close>

definition toYMD :: "'d platform \<Rightarrow> 'd \<Rightarrow> string option" where
  "toYMD P dt = map_option (take 10) (toISOString P dt)"

definition startOfMonth :: "'d platform \<Rightarrow> 'd \<Rightarrow> 'd" where
  "startOfMonth P dt = newDate P (getFullYear P dt) (getMonth P dt) (Some 1)"

definition endOfMonth :: "'d platform \<Rightarrow> 'd \<Rightarrow> 'd" where
  "endOfMonth P dt =
     newDate P (getFullYear P dt) (map_option (\<lambda>m. m + 1) (getMonth P dt)) (Some 0)"

definition addMonths :: "'d platform \<Rightarrow> 'd \<Rightarrow> int \<Rightarrow> 'd" where
  "addMonths P dt count =
     newDate P (getFullYear P dt) (map_option (\<lambda>m. m + count) (getMonth P dt)) (Some 1)"

text \<open>
  The \<^verbatim>\<open>while\<close> loop of \<^verbatim>\<open>getMonthGrid\<close> pushes \<^verbatim>\<open>null\<close> until the length is a
  multiple of 7; the last loop cuts the cells into slices of 7.
\<close>

lemma pad_measure_aux:
  fixes r :: nat
  assumes "r < 7" "r \<noteq> 0"
  shows "(7 - (if Suc r = 7 then 0 else Suc r)) mod 7 < (7 - r) mod 7"
proof (cases "r = 6")
  case True
  then show ?thesis by simp
next
  case False
  with assms have "Suc r < 7" by simp
  then have "(7 - Suc r) mod 7 = 7 - Suc r" "(7 - r) mod 7 = 7 - r"
    using assms by simp_all
  with \<open>Suc r < 7\<close> show ?thesis by simp
qed

lemma pad_measure:
  fixes n :: nat
  assumes "n mod 7 \<noteq> 0"
  shows "(7 - Suc n mod 7) mod 7 < (7 - n mod 7) mod 7"
  using pad_measure_aux [of "n mod 7"] assms by (simp only: mod_Suc [of n 7]) simp

function padWeek :: "'a option list \<Rightarrow> 'a option list" where
  "padWeek cells = (if length cells mod 7 \<noteq> 0 then padWeek (cells @ [None]) else cells)"
  by pat_completeness auto
termination
proof (relation "measure (\<lambda>cells. (7 - length cells mod 7) mod 7)")
  show "wf (measure (\<lambda>cells::'a option list. (7 - length cells mod 7) mod 7))" by simp
next
  fix cells :: "'a option list"
  assume "length cells mod 7 \<noteq> 0"
  then show "(cells @ [None], cells) \<in> measure (\<lambda>cells. (7 - length cells mod 7) mod 7)"
    using pad_measure [of "length cells"] by simp
qed

declare padWeek.simps [simp del]

function rowsFrom :: "'a list \<Rightarrow> nat \<Rightarrow> 'a list list" where
  "rowsFrom cells i =
     (if i < length cells then take 7 (drop i cells) # rowsFrom cells (i + 7) else [])"
  by pat_completeness auto
termination
  by (relation "measure (\<lambda>(cells, i). length cells - i)") auto

declare rowsFrom.simps [simp del]

text \<open>
  \<^verbatim>\<open>getMonthGrid\<close> (lines 72-84). The two \<^verbatim>\<open>for\<close> loops are bounded by what \<^verbatim>\<open>getDay\<close>
  and \<^verbatim>\<open>getDate\<close> return: a comparison with \<^verbatim>\<open>NaN\<close> is false, so that such a loop does
  not run, and a bound \<open>s\<close> gives \<open>nat s\<close> rounds.
\<close>

definition getMonthGrid :: "'d platform \<Rightarrow> 'd \<Rightarrow> 'd option list list" where
  "getMonthGrid P dateInMonth =
     (let first = startOfMonth P dateInMonth;
          last = endOfMonth P dateInMonth;
          startDay = getDay P first;
          daysInMonth = getDate P last;
          cells = replicate (case startDay of None \<Rightarrow> 0 | Some s \<Rightarrow> nat s) None;
          cells = cells @ map (\<lambda>d. Some (newDate P (getFullYear P first) (getMonth P first)
                                            (Some (int d))))
                            (case daysInMonth of None \<Rightarrow> [] | Some n \<Rightarrow> [1..<nat n + 1]);
          cells = padWeek cells
      in rowsFrom cells 0)"

section \<open>Aggregation\<close>

text \<open>
  \<^verbatim>\<open>daysPresentFor\<close> (lines 151-158) reads the current document. Strings are compared
  code unit by code unit, which is the lexicographic order of \<open>char list\<close>. When
  \<^verbatim>\<open>toYMD\<close> throws, so does \<^verbatim>\<open>daysPresentFor\<close>.
\<close>

definition daysPresentFor :: "'d platform \<Rightarrow> AppData \<Rightarrow> string \<Rightarrow> 'd \<Rightarrow> nat option" where
  "daysPresentFor P data lid monthDate =
     (let first = startOfMonth P monthDate;
          last = endOfMonth P monthDate
      in case toYMD P first of
           None \<Rightarrow> None
         | Some ymdFirst \<Rightarrow>
             (case toYMD P last of
                None \<Rightarrow> None
              | Some ymdLast \<Rightarrow>
                  (let list = filter (\<lambda>a. labourId a = lid \<and> ymdFirst \<le> date a
                                          \<and> date a \<le> ymdLast \<and> present a)
                                (attendance data)
                   in Some (length list))))"

text \<open>
  The Numbers of the aggregation are IEEE doubles. What it computes with are counts, the
  stored daily rates, which are whole numbers, and sums and products of these: doubles with
  an integer value, the two infinities and \<^verbatim>\<open>NaN\<close>. The exact sum or product of two whole
  doubles is an integer, and the operation returns the double nearest to it: the integer
  itself below \<open>2^53\<close>; above, the nearest integer with a significand of 53 bits, the one
  with the even significand in a tie, and an infinity when that would be \<open>2^1024\<close> or
  more. \<open>bitLength\<close> is the number of binary digits.
\<close>

datatype double = Whole int | PlusInfinity | MinusInfinity | NotANumber

function bitLength :: "int \<Rightarrow> nat" where
  "bitLength n = (if n \<le> 0 then 0 else Suc (bitLength (n div 2)))"
  by pat_completeness auto
termination
  by (relation "measure nat") auto

declare bitLength.simps [simp del]

definition roundToDouble :: "int \<Rightarrow> double" where
  "roundToDouble x =
     (if \<bar>x\<bar> < 2 ^ 53 then Whole x
      else
        (let q = 2 ^ (bitLength \<bar>x\<bar> - 53);
             m = \<bar>x\<bar> div q;
             r = \<bar>x\<bar> mod q;
             n = (if q < 2 * r \<or> (2 * r = q \<and> odd m) then m + 1 else m)
         in if 2 ^ 1024 \<le> n * q then (if x < 0 then MinusInfinity else PlusInfinity)
            else Whole (sgn x * (n * q))))"

fun plus_double :: "double \<Rightarrow> double \<Rightarrow> double" where
  "plus_double (Whole a) (Whole b) = roundToDouble (a + b)"
| "plus_double NotANumber y = NotANumber"
| "plus_double x NotANumber = NotANumber"
| "plus_double PlusInfinity MinusInfinity = NotANumber"
| "plus_double MinusInfinity PlusInfinity = NotANumber"
| "plus_double PlusInfinity y = PlusInfinity"
| "plus_double x PlusInfinity = PlusInfinity"
| "plus_double MinusInfinity y = MinusInfinity"
| "plus_double x MinusInfinity = MinusInfinity"

text \<open>
  \<^verbatim>\<open>totals\<close> (lines 160-173). \<^verbatim>\<open>byContractor\<close> is a plain object literal, so a
  lookup also sees the properties inherited from \<^verbatim>\<open>Object.prototype\<close>. Each of them
  is a function or an object and therefore truthy: for such a key \<^verbatim>\<open>||=\<close> assigns
  nothing, the three \<^verbatim>\<open>+=\<close> write to the inherited object, and \<^verbatim>\<open>byContractor\<close> gets
  no property of its own. For every other key the object behaves as a dictionary, kept
  here as an association list in insertion order. The days are the length of an array and
  the rate is a whole number, so their product is rounded once. \<^verbatim>\<open>Object.values\<close> lists
  the own properties: first those whose key is an array index (the decimal numeral of an
  integer up to \<open>2^32 - 2\<close>) in ascending order, then the others in the order in which they
  were made. An exception of \<^verbatim>\<open>daysPresentFor\<close> ends the loop and the whole computation.
\<close>

record Bucket =
  days :: double
  amount :: double
  labourCount :: double

definition objectPrototypeKeys :: "string list" where
  "objectPrototypeKeys =
     [''constructor'', ''__defineGetter__'', ''__defineSetter__'', ''hasOwnProperty'',
      ''__lookupGetter__'', ''__lookupSetter__'', ''isPrototypeOf'', ''propertyIsEnumerable'',
      ''toString'', ''valueOf'', ''__proto__'', ''toLocaleString'']"

fun addTo :: "string \<Rightarrow> double \<Rightarrow> double \<Rightarrow> (string \<times> Bucket) list \<Rightarrow> (string \<times> Bucket) list" where
  "addTo key d a [] =
     [(key, \<lparr>days = plus_double (Whole 0) d, amount = plus_double (Whole 0) a,
             labourCount = plus_double (Whole 0) (Whole 1)\<rparr>)]"
| "addTo key d a ((k, b) # rest) =
     (if k = key
      then (k, \<lparr>days = plus_double (days b) d, amount = plus_double (amount b) a,
                labourCount = plus_double (labourCount b) (Whole 1)\<rparr>) # rest
      else (k, b) # addTo key d a rest)"

definition totalsStep ::
  "'d platform \<Rightarrow> AppData \<Rightarrow> 'd \<Rightarrow> (string \<times> Bucket) list \<Rightarrow> Labour
     \<Rightarrow> (string \<times> Bucket) list option" where
  "totalsStep P data monthDate bc labour =
     (case daysPresentFor P data (id_l labour) monthDate of
        None \<Rightarrow> None
      | Some ds \<Rightarrow>
          (let amt = roundToDouble (int ds * dailyRate labour);
               key = contractorId labour
           in Some (if key \<in> set objectPrototypeKeys then bc
                    else addTo key (Whole (int ds)) amt bc)))"

primrec forEach :: "('s \<Rightarrow> 'a \<Rightarrow> 's option) \<Rightarrow> 's \<Rightarrow> 'a list \<Rightarrow> 's option" where
  "forEach f s [] = Some s"
| "forEach f s (x # xs) = (case f s x of None \<Rightarrow> None | Some s' \<Rightarrow> forEach f s' xs)"

definition indexOf :: "string \<Rightarrow> int" where
  "indexOf s = foldl (\<lambda>n c. 10 * n + (of_char c - 48)) 0 s"

definition isArrayIndex :: "string \<Rightarrow> bool" where
  "isArrayIndex s \<longleftrightarrow>
     s \<noteq> [] \<and> list_all (\<lambda>c. c \<in> set ''0123456789'') s
     \<and> (if hd s = CHR ''0'' then s = ''0'' else indexOf s \<le> 4294967294)"

definition objectValues :: "(string \<times> 'v) list \<Rightarrow> 'v list" where
  "objectValues obj =
     map snd (sort_key (\<lambda>kv. indexOf (fst kv)) (filter (\<lambda>kv. isArrayIndex (fst kv)) obj)
              @ filter (\<lambda>kv. \<not> isArrayIndex (fst kv)) obj)"

definition addBucket :: "Bucket \<Rightarrow> Bucket \<Rightarrow> Bucket" where
  "addBucket acc v =
     \<lparr>days = plus_double (days acc) (days v), amount = plus_double (amount acc) (amount v),
      labourCount = plus_double (labourCount acc) (labourCount v)\<rparr>"

record Totals =
  byContractor :: "(string \<times> Bucket) list"
  grand :: Bucket

definition totals :: "'d platform \<Rightarrow> AppData \<Rightarrow> 'd \<Rightarrow> Totals option" where
  "totals P data monthDate =
     (case forEach (totalsStep P data monthDate) [] (labours data) of
        None \<Rightarrow> None
      | Some bc \<Rightarrow>
          (let g = foldl addBucket \<lparr>days = Whole 0, amount = Whole 0, labourCount = Whole 0\<rparr>
                     (objectValues bc)
           in Some \<lparr>byContractor = bc, grand = g\<rparr>))"

section \<open>Invariants of the attendance list\<close>

text \<open>
  \<open>idsDistinct\<close>: no two attendance records share an id. \<open>keyed\<close>: the id of every record
  is the composite of its own labourer and date. \<open>onePerPair\<close>: no two records share
  labourer and date.
\<close>

definition idsDistinct :: "AppData \<Rightarrow> bool" where
  "idsDistinct d = distinct (map id_a (attendance d))"

definition keyed :: "AppData \<Rightarrow> bool" where
  "keyed d = list_all (\<lambda>a. id_a a = labourId a @ '':'' @ date a) (attendance d)"

definition onePerPair :: "AppData \<Rightarrow> bool" where
  "onePerPair d = distinct (map (\<lambda>a. (labourId a, date a)) (attendance d))"

text \<open>
  The documents that the five mutations build from the initial one, with any arguments
  and any generated ids.
\<close>

inductive reachable :: "AppData \<Rightarrow> bool" where
  initial: "reachable initialData"
| addContractor: "reachable d \<Longrightarrow> reachable (addContractor e ctrName ctrNote d)"
| removeContractor: "reachable d \<Longrightarrow> reachable (removeContractor i d)"
| addLabour: "reachable d \<Longrightarrow> reachable (addLabour e labCtr labName rate d)"
| removeLabour: "reachable d \<Longrightarrow> reachable (removeLabour i d)"
| setAttendance: "reachable d \<Longrightarrow> reachable (setAttendance lid ymd p d)"

section \<open>The calendar, and platforms with a constant offset\<close>

text \<open>
  The proleptic Gregorian calendar, as ECMAScript has it. A value of \<open>JsDate\<close> is a
  calendar day: a year, a month index from 0 to 11 and a day of the month.
\<close>

record JsDate =
  year :: int
  month :: nat
  day :: nat

definition isLeap :: "int \<Rightarrow> bool" where
  "isLeap y = (y mod 4 = 0 \<and> (y mod 100 \<noteq> 0 \<or> y mod 400 = 0))"

definition monthLength :: "int \<Rightarrow> nat \<Rightarrow> nat" where
  "monthLength y m =
     (if m = 1 then (if isLeap y then 29 else 28)
      else if m = 3 \<or> m = 5 \<or> m = 8 \<or> m = 10 then 30 else 31)"

lemma monthLength_bounds: "28 \<le> monthLength y m \<and> monthLength y m \<le> 31"
  by (simp add: monthLength_def)

text \<open>
  A day number outside the month carries into the neighbouring months, as
  \<^verbatim>\<open>MakeDay\<close> does: day 0 is the last day of the month before.
\<close>

function normDay :: "int \<Rightarrow> nat \<Rightarrow> int \<Rightarrow> JsDate" where
  "normDay y m d =
     (if d < 1 then
        normDay (if m = 0 then y - 1 else y) (if m = 0 then 11 else m - 1)
          (d + int (monthLength (if m = 0 then y - 1 else y) (if m = 0 then 11 else m - 1)))
      else if int (monthLength y m) < d then
        normDay (if 11 \<le> m then y + 1 else y) (if 11 \<le> m then 0 else m + 1)
          (d - int (monthLength y m))
      else \<lparr>year = y, month = m, day = nat d\<rparr>)"
  by pat_completeness auto
termination
proof (relation "measure (\<lambda>(y, m, d). if d < 1 then nat (1 - d) + 32 else nat d)")
  show "wf (measure (\<lambda>(y, m, d). if d < 1 then nat (1 - d) + 32 else nat d))"
    by simp
next
  fix y :: int and m :: nat and d :: int
  assume "d < 1"
  then show "((if m = 0 then y - 1 else y, if m = 0 then 11 else m - 1,
               d + int (monthLength (if m = 0 then y - 1 else y) (if m = 0 then 11 else m - 1))),
              (y, m, d))
             \<in> measure (\<lambda>(y, m, d). if d < 1 then nat (1 - d) + 32 else nat d)"
    using monthLength_bounds [of "if m = 0 then y - 1 else y" "if m = 0 then 11 else m - 1"]
    by auto
next
  fix y :: int and m :: nat and d :: int
  assume "\<not> d < 1" "int (monthLength y m) < d"
  then show "((if 11 \<le> m then y + 1 else y, if 11 \<le> m then 0 else m + 1,
               d - int (monthLength y m)), (y, m, d))
             \<in> measure (\<lambda>(y, m, d). if d < 1 then nat (1 - d) + 32 else nat d)"
    using monthLength_bounds [of y m] by auto
qed

declare normDay.simps [simp del]

text \<open>
  \<open>dayFromYear\<close> and the day within the year give the number of days since 1 January
  1970, a Thursday; \<open>weekDay\<close> is the day of the week, 0 for Sunday.
\<close>

definition dayFromYear :: "int \<Rightarrow> int" where
  "dayFromYear y =
     365 * (y - 1970) + (y - 1969) div 4 - (y - 1901) div 100 + (y - 1601) div 400"

definition dayNumber :: "JsDate \<Rightarrow> int" where
  "dayNumber dt =
     dayFromYear (year dt) + int (sum_list (map (monthLength (year dt)) [0..<month dt]))
       + int (day dt) - 1"

definition weekDay :: "JsDate \<Rightarrow> nat" where
  "weekDay dt = nat ((dayNumber dt + 4) mod 7)"

text \<open>
  A platform whose local time is \<open>tz\<close> minutes ahead of UTC on every day: 330 in India,
  -300 in Bogota. A Date object of it is a local midnight, given by its calendar day, or
  the Invalid Date, which is \<open>None\<close>; the Dates that the functions above build are local
  midnights, and they read only the year and the month of their argument.

  \<^verbatim>\<open>new Date(year, monthIndex, day)\<close>: a year from 0 to 99 means 1900 to 1999, a month
  index outside 0 to 11 carries into the year, then the day is normalised. The result is
  the Invalid Date when an argument is \<^verbatim>\<open>NaN\<close> or when the instant is more than
  \<open>8.64 \<times> 10^15\<close> milliseconds away from 1 January 1970 UTC.
\<close>

definition inRange :: "int \<Rightarrow> JsDate \<Rightarrow> bool" where
  "inRange tz dt \<longleftrightarrow> \<bar>dayNumber dt * 86400000 - tz * 60000\<bar> \<le> 8640000000000000"

definition new_Date :: "int \<Rightarrow> int option \<Rightarrow> int option \<Rightarrow> int option \<Rightarrow> JsDate option" where
  "new_Date tz yo mo d0 =
     (case yo of
        None \<Rightarrow> None
      | Some y \<Rightarrow>
          (case mo of
             None \<Rightarrow> None
           | Some m \<Rightarrow>
               (case d0 of
                  None \<Rightarrow> None
                | Some d \<Rightarrow>
                    (let yr = (if 0 \<le> y \<and> y \<le> 99 then 1900 + y else y);
                         dt = normDay (yr + m div 12) (nat (m mod 12)) d
                     in if inRange tz dt then Some dt else None))))"

text \<open>
  \<^verbatim>\<open>toISOString\<close> prints the UTC fields. Local midnight is the UTC instant \<open>tz\<close> minutes
  earlier, so its UTC date is the local date moved by \<open>(- tz) div 1440\<close> days: the day
  before in every zone east of Greenwich. The year is printed with four digits from 0 to
  9999 and with a sign and six digits otherwise.
\<close>

fun digits :: "nat \<Rightarrow> nat \<Rightarrow> string" where
  "digits 0 k = []"
| "digits (Suc n) k = digits n (k div 10) @ [char_of (48 + k mod 10)]"

definition isoYear :: "int \<Rightarrow> string" where
  "isoYear y =
     (if 0 \<le> y \<and> y \<le> 9999 then digits 4 (nat y)
      else (if y < 0 then ''-'' else ''+'') @ digits 6 (nat \<bar>y\<bar>))"

definition isoDate :: "JsDate \<Rightarrow> string" where
  "isoDate dt = isoYear (year dt) @ ''-'' @ digits 2 (month dt + 1) @ ''-'' @ digits 2 (day dt)"

definition utcDate :: "int \<Rightarrow> JsDate \<Rightarrow> JsDate" where
  "utcDate tz dt = normDay (year dt) (month dt) (int (day dt) + (- tz) div 1440)"

definition isoString :: "int \<Rightarrow> JsDate \<Rightarrow> string" where
  "isoString tz dt =
     isoDate (utcDate tz dt) @ ''T'' @ digits 2 (nat ((- tz) mod 1440 div 60)) @ '':''
       @ digits 2 (nat ((- tz) mod 1440 mod 60)) @ '':00.000Z''"

definition fixedOffset :: "int \<Rightarrow> JsDate option platform" where
  "fixedOffset tz =
     \<lparr>newDate = new_Date tz,
      getFullYear = map_option year,
      getMonth = map_option (\<lambda>dt. int (month dt)),
      getDate = map_option (\<lambda>dt. int (day dt)),
      getDay = map_option (\<lambda>dt. int (weekDay dt)),
      toISOString = map_option (isoString tz)\<rparr>"

section \<open>Example documents\<close>

definition demoEntropy :: entropy where
  "demoEntropy = \<lparr>rnd36 = ''k3'', now36 = ''lx''\<rparr>"

definition demoDoc :: AppData where
  "demoDoc =
     \<lparr>contractors = [\<lparr>id_c = ''ctr_a'', name_c = ''Ravi Plumbing'', note_c = None\<rparr>,
                     \<lparr>id_c = ''ctr_b'', name_c = ''Mohan Pipes'', note_c = Some ''east site''\<rparr>],
      labours = [\<lparr>id_l = ''lab_s'', contractorId = ''ctr_a'', name_l = ''Suresh'', dailyRate = 800\<rparr>,
                 \<lparr>id_l = ''lab_t'', contractorId = ''ctr_b'', name_l = ''Tarun'', dailyRate = 650\<rparr>],
      attendance = [\<lparr>id_a = ''lab_s:2024-03-05'', labourId = ''lab_s'', date = ''2024-03-05'', present = True\<rparr>,
                    \<lparr>id_a = ''lab_t:2024-03-05'', labourId = ''lab_t'', date = ''2024-03-05'', present = True\<rparr>,
                    \<lparr>id_a = ''lab_s:2024-03-12'', labourId = ''lab_s'', date = ''2024-03-12'', present = True\<rparr>]\<rparr>"

text \<open>
  A document with a labourer whose contractor is gone, and one in which two labourers share
  an id. The first is what the dashboard produces when a labourer is added while the
  selection still holds the id of a deleted contractor.
\<close>

definition danglingDoc :: AppData where
  "danglingDoc = addLabour demoEntropy ''ctr_gone'' ''Anil'' (Finite 700) initialData"

definition sharedIdDoc :: AppData where
  "sharedIdDoc =
     \<lparr>contractors = [\<lparr>id_c = ''ctr_a'', name_c = ''Ravi Plumbing'', note_c = None\<rparr>,
                     \<lparr>id_c = ''ctr_b'', name_c = ''Mohan Pipes'', note_c = None\<rparr>],
      labours = [\<lparr>id_l = ''lab_x'', contractorId = ''ctr_a'', name_l = ''Suresh'', dailyRate = 800\<rparr>,
                 \<lparr>id_l = ''lab_x'', contractorId = ''ctr_b'', name_l = ''Tarun'', dailyRate = 650\<rparr>],
      attendance = [\<lparr>id_a = ''lab_x:2024-03-05'', labourId = ''lab_x'', date = ''2024-03-05'', present = True\<rparr>]\<rparr>"

text \<open>A document with an attendance record of a labourer that does not exist.\<close>

definition orphanDoc :: AppData where
  "orphanDoc = setAttendance ''ghost'' ''2024-03-05'' True initialData"

text \<open>The month used in the examples, on a platform with a constant offset.\<close>

definition march2024 :: "JsDate option" where
  "march2024 = Some \<lparr>year = 2024, month = 2, day = 1\<rparr>"

text \<open>
  Suresh marked present on 31 March 2024, and Suresh marked present on 29 February 2024.
\<close>

definition lastDayDoc :: AppData where
  "lastDayDoc =
     \<lparr>contractors = [\<lparr>id_c = ''ctr_a'', name_c = ''Ravi Plumbing'', note_c = None\<rparr>],
      labours = [\<lparr>id_l = ''lab_s'', contractorId = ''ctr_a'', name_l = ''Suresh'', dailyRate = 800\<rparr>],
      attendance = [\<lparr>id_a = ''lab_s:2024-03-31'', labourId = ''lab_s'', date = ''2024-03-31'',
                      present = True\<rparr>]\<rparr>"

definition leapDayDoc :: AppData where
  "leapDayDoc =
     \<lparr>contractors = [\<lparr>id_c = ''ctr_a'', name_c = ''Ravi Plumbing'', note_c = None\<rparr>],
      labours = [\<lparr>id_l = ''lab_s'', contractorId = ''ctr_a'', name_l = ''Suresh'', dailyRate = 800\<rparr>],
      attendance = [\<lparr>id_a = ''lab_s:2024-02-29'', labourId = ''lab_s'', date = ''2024-02-29'',
                      present = True\<rparr>]\<rparr>"

text \<open>
  What the dashboard stores when a contractor is added, a labourer with a daily rate of
  \<open>2^53 - 1\<close> is added under it, and three days of March 2024 are ticked for him.
\<close>

definition largeRateDoc :: AppData where
  "largeRateDoc =
     setAttendance ''lab_k3_lx'' ''2024-03-19'' True
       (setAttendance ''lab_k3_lx'' ''2024-03-12'' True
          (setAttendance ''lab_k3_lx'' ''2024-03-05'' True
             (addLabour demoEntropy ''ctr_k3_lx'' ''Suresh'' (Finite 9007199254740991)
                (addContractor demoEntropy ''Ravi Plumbing'' [] initialData))))"

text \<open>
  Four labourers with the daily rates 1, \<open>2^53\<close>, 1 and 1 under the contractors a, b, a
  and c, each present on one day of March 2024.
\<close>

definition mixedRateDoc :: AppData where
  "mixedRateDoc =
     \<lparr>contractors = [\<lparr>id_c = ''ctr_a'', name_c = ''Ravi Plumbing'', note_c = None\<rparr>,
                     \<lparr>id_c = ''ctr_b'', name_c = ''Mohan Pipes'', note_c = None\<rparr>,
                     \<lparr>id_c = ''ctr_c'', name_c = ''Usha Fittings'', note_c = None\<rparr>],
      labours = [\<lparr>id_l = ''lab_1'', contractorId = ''ctr_a'', name_l = ''Suresh'', dailyRate = 1\<rparr>,
                 \<lparr>id_l = ''lab_2'', contractorId = ''ctr_b'', name_l = ''Tarun'',
                   dailyRate = 9007199254740992\<rparr>,
                 \<lparr>id_l = ''lab_3'', contractorId = ''ctr_a'', name_l = ''Anil'', dailyRate = 1\<rparr>,
                 \<lparr>id_l = ''lab_4'', contractorId = ''ctr_c'', name_l = ''Vijay'', dailyRate = 1\<rparr>],
      attendance = [\<lparr>id_a = ''lab_1:2024-03-05'', labourId = ''lab_1'', date = ''2024-03-05'', present = True\<rparr>,
                    \<lparr>id_a = ''lab_2:2024-03-05'', labourId = ''lab_2'', date = ''2024-03-05'', present = True\<rparr>,
                    \<lparr>id_a = ''lab_3:2024-03-05'', labourId = ''lab_3'', date = ''2024-03-05'', present = True\<rparr>,
                    \<lparr>id_a = ''lab_4:2024-03-05'', labourId = ''lab_4'', date = ''2024-03-05'', present = True\<rparr>]\<rparr>"

section \<open>The readings of the specification\<close>

text \<open>
  The reading of the specification, to compare \<open>daysPresentFor\<close> with: \<open>ymdOf\<close> writes
  a calendar day as \<open>yyyy-mm-dd\<close>, and \<open>daysPresent_spec\<close> counts the records of the
  labourer that are present and dated from the first to the last day of month \<open>mo\<close> of
  year \<open>y\<close>.
\<close>

definition ymdOf :: "JsDate \<Rightarrow> string" where
  "ymdOf dt = digits 4 (nat (year dt)) @ ''-'' @ digits 2 (month dt + 1) @ ''-'' @ digits 2 (day dt)"

definition daysPresent_spec :: "AppData \<Rightarrow> string \<Rightarrow> int \<Rightarrow> nat \<Rightarrow> nat" where
  "daysPresent_spec data lid y mo =
     length (filter (\<lambda>a. labourId a = lid \<and> present a
                          \<and> ymdOf \<lparr>year = y, month = mo, day = 1\<rparr> \<le> date a
                          \<and> date a \<le> ymdOf \<lparr>year = y, month = mo, day = monthLength y mo\<rparr>)
               (attendance data))"

text \<open>
  The date \<open>dt\<close> lies in month \<open>mo\<close> of year \<open>y\<close>, and the constructor of the platform
  returns the local days of that month that \<^verbatim>\<open>getMonthGrid\<close> asks for: day 1, on its
  weekday, every day up to the last, and the last day for day 0 of the month after.
\<close>

definition regularMonth :: "'d platform \<Rightarrow> 'd \<Rightarrow> int \<Rightarrow> nat \<Rightarrow> bool" where
  "regularMonth P dt y mo \<longleftrightarrow>
     mo < 12 \<and> getFullYear P dt = Some y \<and> getMonth P dt = Some (int mo)
     \<and> getDay P (newDate P (Some y) (Some (int mo)) (Some 1))
         = Some (int (weekDay \<lparr>year = y, month = mo, day = 1\<rparr>))
     \<and> getDate P (newDate P (Some y) (Some (int mo + 1)) (Some 0)) = Some (int (monthLength y mo))
     \<and> list_all (\<lambda>d. getFullYear P (newDate P (Some y) (Some (int mo)) (Some (int d))) = Some y
                    \<and> getMonth P (newDate P (Some y) (Some (int mo)) (Some (int d))) = Some (int mo)
                    \<and> getDate P (newDate P (Some y) (Some (int mo)) (Some (int d))) = Some (int d))
         [1..<monthLength y mo + 1]"

text \<open>The local calendar day of a Date object, as the accessors report it.\<close>

definition localDay :: "'d platform \<Rightarrow> 'd \<Rightarrow> int option \<times> int option \<times> int option" where
  "localDay P dt = (getFullYear P dt, getMonth P dt, getDate P dt)"

text \<open>
  The days and the wage of a labourer in a month, as integers. A bucket of whole numbers
  holds three doubles with an integer value, the days and the head count not negative.
  \<open>bucketSum\<close> is the componentwise sum of such buckets, and \<open>amountWeight\<close> adds the
  magnitudes of their amounts.
\<close>

definition daysOf :: "'d platform \<Rightarrow> AppData \<Rightarrow> 'd \<Rightarrow> Labour \<Rightarrow> int" where
  "daysOf P data m l = (case daysPresentFor P data (id_l l) m of None \<Rightarrow> 0 | Some n \<Rightarrow> int n)"

definition owed :: "'d platform \<Rightarrow> AppData \<Rightarrow> 'd \<Rightarrow> Labour \<Rightarrow> int" where
  "owed P data m l = daysOf P data m l * dailyRate l"

fun valueOf :: "double \<Rightarrow> int" where
  "valueOf (Whole n) = n"
| "valueOf PlusInfinity = 0"
| "valueOf MinusInfinity = 0"
| "valueOf NotANumber = 0"

fun isWhole :: "double \<Rightarrow> bool" where
  "isWhole (Whole n) = True"
| "isWhole PlusInfinity = False"
| "isWhole MinusInfinity = False"
| "isWhole NotANumber = False"

definition wholeBucket :: "Bucket \<Rightarrow> bool" where
  "wholeBucket b \<longleftrightarrow>
     isWhole (days b) \<and> isWhole (amount b) \<and> isWhole (labourCount b)
     \<and> 0 \<le> valueOf (days b) \<and> 0 \<le> valueOf (labourCount b)"

definition dayTotal :: "(string \<times> Bucket) list \<Rightarrow> int" where
  "dayTotal bc = (\<Sum>kv\<leftarrow>bc. valueOf (days (snd kv)))"

definition amountTotal :: "(string \<times> Bucket) list \<Rightarrow> int" where
  "amountTotal bc = (\<Sum>kv\<leftarrow>bc. valueOf (amount (snd kv)))"

definition headTotal :: "(string \<times> Bucket) list \<Rightarrow> int" where
  "headTotal bc = (\<Sum>kv\<leftarrow>bc. valueOf (labourCount (snd kv)))"

definition amountWeight :: "(string \<times> Bucket) list \<Rightarrow> int" where
  "amountWeight bc = (\<Sum>kv\<leftarrow>bc. \<bar>valueOf (amount (snd kv))\<bar>)"

definition bucketSum :: "(string \<times> Bucket) list \<Rightarrow> Bucket" where
  "bucketSum bc =
     \<lparr>days = Whole (dayTotal bc), amount = Whole (amountTotal bc),
      labourCount = Whole (headTotal bc)\<rparr>"

text \<open>An identifier that \<^verbatim>\<open>newId\<close> makes begins with its prefix and an underscore.\<close>

definition assignedId :: "string \<Rightarrow> string \<Rightarrow> bool" where
  "assignedId prefix i \<longleftrightarrow> take (length prefix + 1) i = prefix @ ''_''"

section \<open>Setting attendance\<close>

lemma find_id_a_None:
  "find (\<lambda>a. id_a a = i) xs = None \<longleftrightarrow> i \<notin> id_a ` set xs"
  by (auto simp: find_None_iff)

lemma find_id_a_found:
  "find (\<lambda>a. id_a a = i) xs \<noteq> None \<longleftrightarrow> i \<in> id_a ` set xs"
  by (simp only: find_id_a_None not_not)

lemma attendance_setAttendance:
  "attendance (setAttendance lid ymd p prev) =
     (if lid @ '':'' @ ymd \<in> id_a ` set (attendance prev)
      then map (\<lambda>a. if id_a a = lid @ '':'' @ ymd then a\<lparr>present := p\<rparr> else a) (attendance prev)
      else attendance prev @
        [\<lparr>id_a = lid @ '':'' @ ymd, labourId = lid, date = ymd, present = p\<rparr>])"
  unfolding setAttendance_def Let_def find_id_a_found by simp

lemma setAttendance_other_fields:
  "contractors (setAttendance lid ymd p prev) = contractors prev"
  "labours (setAttendance lid ymd p prev) = labours prev"
  by (simp_all add: setAttendance_def Let_def)

lemma map_id_a_set_present:
  "map id_a (map (\<lambda>a. if id_a a = i then a\<lparr>present := p\<rparr> else a) xs) = map id_a xs"
  by (induction xs) auto

lemma set_present_twice:
  "map (\<lambda>a. if id_a a = i then a\<lparr>present := p\<rparr> else a)
     (map (\<lambda>a. if id_a a = i then a\<lparr>present := p\<rparr> else a) xs) =
   map (\<lambda>a. if id_a a = i then a\<lparr>present := p\<rparr> else a) xs"
  by (induction xs) auto

lemma set_present_append_new:
  "i \<notin> id_a ` set xs \<Longrightarrow>
   map (\<lambda>a. if id_a a = i then a\<lparr>present := p\<rparr> else a)
     (xs @ [\<lparr>id_a = i, labourId = lid, date = ymd, present = p\<rparr>]) =
   xs @ [\<lparr>id_a = i, labourId = lid, date = ymd, present = p\<rparr>]"
  by (induction xs) auto

lemma id_a_after_setAttendance:
  "lid @ '':'' @ ymd \<in> id_a ` set (attendance (setAttendance lid ymd p prev))"
proof (cases "lid @ '':'' @ ymd \<in> id_a ` set (attendance prev)")
  case True
  then have "lid @ '':'' @ ymd \<in> set (map id_a (attendance (setAttendance lid ymd p prev)))"
    by (simp only: attendance_setAttendance if_True map_id_a_set_present) simp
  then show ?thesis by simp
next
  case False
  then show ?thesis by (simp add: attendance_setAttendance)
qed

lemma AppData_eqI:
  fixes d d' :: AppData
  assumes "contractors d = contractors d'" "labours d = labours d'" "attendance d = attendance d'"
  shows "d = d'"
  using assms by simp

lemma setAttendance_twice:
  "setAttendance lid ymd p (setAttendance lid ymd p prev) = setAttendance lid ymd p prev"
proof (rule AppData_eqI)
  let ?i = "lid @ '':'' @ ymd"
  let ?d = "setAttendance lid ymd p prev"
  have again: "attendance (setAttendance lid ymd p ?d) =
      map (\<lambda>a. if id_a a = ?i then a\<lparr>present := p\<rparr> else a) (attendance ?d)"
    using id_a_after_setAttendance [of lid ymd p prev]
    by (simp add: attendance_setAttendance [of lid ymd p ?d])
  show "attendance (setAttendance lid ymd p ?d) = attendance ?d"
  proof (cases "?i \<in> id_a ` set (attendance prev)")
    case True
    then have "attendance ?d =
        map (\<lambda>a. if id_a a = ?i then a\<lparr>present := p\<rparr> else a) (attendance prev)"
      by (simp add: attendance_setAttendance)
    with again show ?thesis by (simp only: set_present_twice)
  next
    case False
    then have "attendance ?d =
        attendance prev @ [\<lparr>id_a = ?i, labourId = lid, date = ymd, present = p\<rparr>]"
      by (simp add: attendance_setAttendance)
    with again set_present_append_new [OF False, of p lid ymd] show ?thesis by simp
  qed
qed (simp_all add: setAttendance_other_fields)

lemma setAttendance_existing:
  "L @ '':'' @ D \<in> id_a ` set (attendance doc) \<Longrightarrow>
   attendance (setAttendance L D p doc) =
     map (\<lambda>a. if id_a a = L @ '':'' @ D then a\<lparr>present := p\<rparr> else a) (attendance doc)"
  by (simp add: attendance_setAttendance)

lemma setAttendance_new:
  "L @ '':'' @ D \<notin> id_a ` set (attendance doc) \<Longrightarrow>
   attendance (setAttendance L D p doc) =
     attendance doc @ [\<lparr>id_a = L @ '':'' @ D, labourId = L, date = D, present = p\<rparr>]"
  by (simp add: attendance_setAttendance)

lemma set_present_keeps:
  "map labourId (map (\<lambda>a. if id_a a = i then a\<lparr>present := p\<rparr> else a) xs) = map labourId xs"
  "map date (map (\<lambda>a. if id_a a = i then a\<lparr>present := p\<rparr> else a) xs) = map date xs"
  "length (map (\<lambda>a. if id_a a = i then a\<lparr>present := p\<rparr> else a) xs) = length xs"
  by (induction xs) auto

text \<open>
  C5. Setting the attendance of labourer \<open>L\<close> on day \<open>D\<close> to \<open>p\<close> twice gives the same
  document as setting it once. The attendance list of the result is described in full:
  when a record with the composite id \<open>L:D\<close> exists, the list keeps its length and order
  and only the \<open>present\<close> flag of the records with that id is replaced; otherwise the old
  list is followed by exactly one new record. Contractors and labourers are untouched.
\<close>

theorem setAttendance_idempotent:
  "setAttendance L D p (setAttendance L D p doc) = setAttendance L D p doc
   \<and> attendance (setAttendance L D p doc) =
       (if L @ '':'' @ D \<in> id_a ` set (attendance doc)
        then map (\<lambda>a. if id_a a = L @ '':'' @ D then a\<lparr>present := p\<rparr> else a) (attendance doc)
        else attendance doc @ [\<lparr>id_a = L @ '':'' @ D, labourId = L, date = D, present = p\<rparr>])
   \<and> contractors (setAttendance L D p doc) = contractors doc
   \<and> labours (setAttendance L D p doc) = labours doc"
  by (simp only: setAttendance_twice attendance_setAttendance setAttendance_other_fields)

section \<open>Adding a contractor\<close>

lemma addContractor_rejects:
  "trim ctrName = [] \<Longrightarrow> addContractor e ctrName ctrNote prev = prev"
  by (simp add: addContractor_def)

lemma addContractor_appends:
  "trim ctrName \<noteq> [] \<Longrightarrow>
   addContractor e ctrName ctrNote prev =
     prev\<lparr>contractors := contractors prev @
       [\<lparr>id_c = newId ''ctr'' e, name_c = trim ctrName,
         note_c = (if trim ctrNote = [] then None else Some (trim ctrNote))\<rparr>]\<rparr>"
  by (simp add: addContractor_def upsertContractor_def)

lemma addContractor_other_fields:
  "labours (addContractor e ctrName ctrNote prev) = labours prev"
  "attendance (addContractor e ctrName ctrNote prev) = attendance prev"
  by (simp_all add: addContractor_def upsertContractor_def)

text \<open>
  C7, with the id as the code makes it. When the name is empty after trimming, the handler
  returns the document it was given: nothing is created and, the function being total,
  nothing is raised. Otherwise the contractors are the old ones followed by exactly one new
  contractor, whose id is \<open>ctr_\<close>, the random digits, \<open>_\<close> and the clock digits, whose
  name is the trimmed name and whose note is the trimmed note (absent when blank);
  labourers and attendance are unchanged. The id is not compared with the ids in use: in
  a document with pairwise distinct contractor ids the ids stay pairwise distinct exactly
  when the generated string is not among them.
\<close>

theorem addContractor_validation:
  "(trim name = [] \<longrightarrow> addContractor e name nt doc = doc)
   \<and> (trim name \<noteq> [] \<longrightarrow>
        contractors (addContractor e name nt doc) =
          contractors doc @
            [\<lparr>id_c = ''ctr_'' @ rnd36 e @ ''_'' @ now36 e, name_c = trim name,
              note_c = (if trim nt = [] then None else Some (trim nt))\<rparr>]
        \<and> labours (addContractor e name nt doc) = labours doc
        \<and> attendance (addContractor e name nt doc) = attendance doc
        \<and> (distinct (map id_c (contractors doc)) \<longrightarrow>
             distinct (map id_c (contractors (addContractor e name nt doc)))
               = (''ctr_'' @ rnd36 e @ ''_'' @ now36 e \<notin> id_c ` set (contractors doc))))"
proof (cases "trim name = []")
  case True
  then show ?thesis by (simp add: addContractor_rejects)
next
  case False
  let ?i = "''ctr_'' @ rnd36 e @ ''_'' @ now36 e"
  let ?c = "\<lparr>id_c = ?i, name_c = trim name,
              note_c = (if trim nt = [] then None else Some (trim nt))\<rparr>"
  from False have cs: "contractors (addContractor e name nt doc) = contractors doc @ [?c]"
    by (simp add: addContractor_appends newId_def)
  have fresh: "distinct (map id_c (contractors (addContractor e name nt doc)))
                 = (?i \<notin> id_c ` set (contractors doc))"
    if "distinct (map id_c (contractors doc))"
    unfolding cs using that by simp
  from False cs fresh show ?thesis
    by (simp only: addContractor_other_fields) blast
qed

theorem addContractor_validation_witness:
  "addContractor \<lparr>rnd36 = ''k3'', now36 = ''lx''\<rparr> ''  '' ''x'' initialData = initialData
   \<and> contractors (addContractor \<lparr>rnd36 = ''k3'', now36 = ''lx''\<rparr> '' Ravi '' [] initialData) =
       [\<lparr>id_c = ''ctr_k3_lx'', name_c = ''Ravi'', note_c = None\<rparr>]
   \<and> distinct (map id_c (contractors (addContractor \<lparr>rnd36 = ''k3'', now36 = ''lx''\<rparr> '' Ravi '' [] initialData)))"
  using addContractor_validation [of "''  ''" "\<lparr>rnd36 = ''k3'', now36 = ''lx''\<rparr>" "''x''" initialData]
    addContractor_validation [of "'' Ravi ''" "\<lparr>rnd36 = ''k3'', now36 = ''lx''\<rparr>" "[]" initialData]
  by (simp add: trim_def jsWhiteSpace_def initialData_def)

text \<open>
  The claim promises a unique id. Nothing in \<open>newId\<close> or in the handler looks at the ids
  in use, so uniqueness rests on the random digits and the clock alone: when both come out
  the same for two calls, the second contractor gets the id of the first, and the document
  is one that the handlers reach from the initial one.
\<close>

theorem addContractor_validation_counterexample:
  "reachable (addContractor demoEntropy ''Mohan Pipes'' []
               (addContractor demoEntropy ''Ravi Plumbing'' [] initialData))
   \<and> contractors (addContractor demoEntropy ''Mohan Pipes'' []
                    (addContractor demoEntropy ''Ravi Plumbing'' [] initialData)) =
       [\<lparr>id_c = ''ctr_k3_lx'', name_c = ''Ravi Plumbing'', note_c = None\<rparr>,
        \<lparr>id_c = ''ctr_k3_lx'', name_c = ''Mohan Pipes'', note_c = None\<rparr>]
   \<and> \<not> distinct (map id_c (contractors (addContractor demoEntropy ''Mohan Pipes'' []
                    (addContractor demoEntropy ''Ravi Plumbing'' [] initialData))))"
proof -
  have r: "reachable (addContractor demoEntropy ''Mohan Pipes'' []
               (addContractor demoEntropy ''Ravi Plumbing'' [] initialData))"
    by (intro reachable.addContractor reachable.initial)
  have c: "contractors (addContractor demoEntropy ''Mohan Pipes'' []
                    (addContractor demoEntropy ''Ravi Plumbing'' [] initialData)) =
       [\<lparr>id_c = ''ctr_k3_lx'', name_c = ''Ravi Plumbing'', note_c = None\<rparr>,
        \<lparr>id_c = ''ctr_k3_lx'', name_c = ''Mohan Pipes'', note_c = None\<rparr>]"
    by (simp add: addContractor_def upsertContractor_def newId_def trim_def jsWhiteSpace_def
          demoEntropy_def initialData_def)
  from r show ?thesis unfolding c by simp
qed

section \<open>Removing a contractor\<close>

lemma find_labour_Some:
  "find (\<lambda>l. id_l l = x) ls = Some l \<Longrightarrow> l \<in> set ls \<and> id_l l = x"
  by (induction ls) (auto split: if_splits)

lemma find_labour_distinct:
  "distinct (map id_l ls) \<Longrightarrow> l \<in> set ls \<Longrightarrow> find (\<lambda>k. id_l k = id_l l) ls = Some l"
  by (induction ls) (auto simp: image_iff)

lemma removeContractor_fields:
  "contractors (removeContractor i prev) = filter (\<lambda>c. id_c c \<noteq> i) (contractors prev)"
  "labours (removeContractor i prev) = filter (\<lambda>l. contractorId l \<noteq> i) (labours prev)"
  "attendance (removeContractor i prev) =
     filter (\<lambda>a. case find (\<lambda>l. id_l l = labourId a) (labours prev) of
                   None \<Rightarrow> True | Some l \<Rightarrow> contractorId l \<noteq> i) (attendance prev)"
  by (simp_all add: removeContractor_def)

lemma keeps_attendance_without_labourers:
  assumes "i \<notin> contractorId ` set ls"
  shows "(case find (\<lambda>l. id_l l = x) ls of None \<Rightarrow> True | Some l \<Rightarrow> contractorId l \<noteq> i)"
proof (cases "find (\<lambda>l. id_l l = x) ls")
  case None
  then show ?thesis by simp
next
  case (Some l)
  from find_labour_Some [OF Some] have "l \<in> set ls" by simp
  with assms have "contractorId l \<noteq> i" by auto
  with Some show ?thesis by simp
qed

lemma filter_ne_id:
  "i \<notin> f ` set xs \<Longrightarrow> filter (\<lambda>c. f c \<noteq> i) xs = xs"
  by (induction xs) auto

lemma removeContractor_unreferenced:
  assumes "i \<notin> id_c ` set (contractors prev)" and "i \<notin> contractorId ` set (labours prev)"
  shows "removeContractor i prev = prev"
proof (rule AppData_eqI)
  from assms(1) show "contractors (removeContractor i prev) = contractors prev"
    by (auto simp: removeContractor_fields filter_id_conv)
  from assms(2) show "labours (removeContractor i prev) = labours prev"
    by (auto simp: removeContractor_fields filter_id_conv)
  show "attendance (removeContractor i prev) = attendance prev"
    using keeps_attendance_without_labourers [OF assms(2)]
    by (simp add: removeContractor_fields filter_id_conv)
qed

lemma distinct_labour_kept_iff:
  assumes "distinct (map id_l ls)"
  shows "(case find (\<lambda>l. id_l l = x) ls of None \<Rightarrow> True | Some l \<Rightarrow> contractorId l \<noteq> i) \<longleftrightarrow>
         x \<notin> id_l ` {l \<in> set ls. contractorId l = i}"
proof (cases "find (\<lambda>l. id_l l = x) ls")
  case None
  then have "x \<notin> id_l ` set ls" unfolding find_None_iff by blast
  then have "x \<notin> id_l ` {l \<in> set ls. contractorId l = i}" by blast
  moreover have "(case find (\<lambda>l. id_l l = x) ls of None \<Rightarrow> True | Some l \<Rightarrow> contractorId l \<noteq> i)"
    unfolding None by simp
  ultimately show ?thesis by blast
next
  case (Some l)
  from find_labour_Some [OF Some] have l: "l \<in> set ls" "id_l l = x" by simp_all
  have uniq: "k = l" if "k \<in> set ls" "id_l k = x" for k
  proof -
    from find_labour_distinct [OF assms that(1)]
    have "find (\<lambda>k'. id_l k' = id_l k) ls = Some k" .
    then have "find (\<lambda>k'. id_l k' = x) ls = Some k" unfolding that(2) .
    with Some show ?thesis by simp
  qed
  have lhs: "(case find (\<lambda>l. id_l l = x) ls of None \<Rightarrow> True | Some l \<Rightarrow> contractorId l \<noteq> i)
             \<longleftrightarrow> contractorId l \<noteq> i"
    unfolding Some by simp
  have rhs: "x \<notin> id_l ` {l \<in> set ls. contractorId l = i} \<longleftrightarrow> contractorId l \<noteq> i"
  proof
    assume "x \<notin> id_l ` {l \<in> set ls. contractorId l = i}"
    with l show "contractorId l \<noteq> i" by blast
  next
    assume ne: "contractorId l \<noteq> i"
    show "x \<notin> id_l ` {l \<in> set ls. contractorId l = i}"
    proof
      assume "x \<in> id_l ` {l \<in> set ls. contractorId l = i}"
      then obtain k where k: "k \<in> set ls" "contractorId k = i" "id_l k = x" by blast
      from uniq [OF k(1) k(3)] k(2) ne show False by simp
    qed
  qed
  from lhs rhs show ?thesis by (simp only:)
qed

lemma removeContractor_gone:
  "C \<notin> id_c ` set (contractors (removeContractor C doc))"
  "C \<notin> contractorId ` set (labours (removeContractor C doc))"
  by (auto simp: removeContractor_fields)

lemma removeContractor_attendance_distinct:
  assumes "distinct (map id_l (labours doc))"
  shows "attendance (removeContractor C doc) =
         filter (\<lambda>a. labourId a \<notin> id_l ` set (filter (\<lambda>l. contractorId l = C) (labours doc)))
           (attendance doc)"
  unfolding removeContractor_fields set_filter
  by (rule filter_cong [OF refl]) (rule distinct_labour_kept_iff [OF assms])

lemma filtered_out_disjoint: "f ` set (filter (\<lambda>a. f a \<notin> S) xs) \<inter> S = {}"
  by auto

text \<open>
  C3, with two provisos. In a document whose labourer ids are pairwise distinct, removing
  contractor \<open>C\<close> leaves exactly the contractors other than \<open>C\<close>, the labourers of other
  contractors and the attendance records that do not belong to a labourer of \<open>C\<close>, each
  unchanged and in its old order; no contractor \<open>C\<close>, no labourer of \<open>C\<close> and no record
  of such a labourer remains. When no contractor has the id \<open>C\<close> and no labourer refers
  to \<open>C\<close>, the document is returned as it was.
\<close>

theorem removeContractor_cascade:
  assumes "distinct (map id_l (labours doc))"
  shows "contractors (removeContractor C doc) = filter (\<lambda>c. id_c c \<noteq> C) (contractors doc)
       \<and> labours (removeContractor C doc) = filter (\<lambda>l. contractorId l \<noteq> C) (labours doc)
       \<and> attendance (removeContractor C doc) =
           filter (\<lambda>a. labourId a \<notin> id_l ` set (filter (\<lambda>l. contractorId l = C) (labours doc)))
             (attendance doc)
       \<and> C \<notin> id_c ` set (contractors (removeContractor C doc))
       \<and> C \<notin> contractorId ` set (labours (removeContractor C doc))
       \<and> labourId ` set (attendance (removeContractor C doc))
             \<inter> id_l ` set (filter (\<lambda>l. contractorId l = C) (labours doc)) = {}
       \<and> (C \<notin> id_c ` set (contractors doc) \<and> C \<notin> contractorId ` set (labours doc)
            \<longrightarrow> removeContractor C doc = doc)"
proof -
  note att = removeContractor_attendance_distinct [OF assms, of C]
  have none_left: "labourId ` set (attendance (removeContractor C doc))
      \<inter> id_l ` set (filter (\<lambda>l. contractorId l = C) (labours doc)) = {}"
    unfolding att by (rule filtered_out_disjoint)
  have noop: "removeContractor C doc = doc"
    if "C \<notin> id_c ` set (contractors doc) \<and> C \<notin> contractorId ` set (labours doc)"
    using that removeContractor_unreferenced [of C doc] by simp
  show ?thesis
  proof (intro conjI impI)
    show "contractors (removeContractor C doc) = filter (\<lambda>c. id_c c \<noteq> C) (contractors doc)"
      by (rule removeContractor_fields(1))
    show "labours (removeContractor C doc) = filter (\<lambda>l. contractorId l \<noteq> C) (labours doc)"
      by (rule removeContractor_fields(2))
    show "attendance (removeContractor C doc) =
           filter (\<lambda>a. labourId a \<notin> id_l ` set (filter (\<lambda>l. contractorId l = C) (labours doc)))
             (attendance doc)"
      by (rule att)
    show "C \<notin> id_c ` set (contractors (removeContractor C doc))"
      by (rule removeContractor_gone(1))
    show "C \<notin> contractorId ` set (labours (removeContractor C doc))"
      by (rule removeContractor_gone(2))
    show "labourId ` set (attendance (removeContractor C doc))
             \<inter> id_l ` set (filter (\<lambda>l. contractorId l = C) (labours doc)) = {}"
      by (rule none_left)
    show "removeContractor C doc = doc"
      if "C \<notin> id_c ` set (contractors doc) \<and> C \<notin> contractorId ` set (labours doc)"
      using that by (rule noop)
  qed
qed

theorem removeContractor_cascade_witness:
  "distinct (map id_l (labours demoDoc))
   \<and> removeContractor ''ctr_a'' demoDoc =
       \<lparr>contractors = [\<lparr>id_c = ''ctr_b'', name_c = ''Mohan Pipes'', note_c = Some ''east site''\<rparr>],
        labours = [\<lparr>id_l = ''lab_t'', contractorId = ''ctr_b'', name_l = ''Tarun'', dailyRate = 650\<rparr>],
        attendance = [\<lparr>id_a = ''lab_t:2024-03-05'', labourId = ''lab_t'', date = ''2024-03-05'', present = True\<rparr>]\<rparr>
   \<and> removeContractor ''ctr_z'' demoDoc = demoDoc"
proof -
  have d: "distinct (map id_l (labours demoDoc))" by (simp add: demoDoc_def)
  note c = removeContractor_cascade [OF d]
  from c [of "''ctr_a''"] have f:
    "contractors (removeContractor ''ctr_a'' demoDoc) =
       filter (\<lambda>c. id_c c \<noteq> ''ctr_a'') (contractors demoDoc)"
    "labours (removeContractor ''ctr_a'' demoDoc) =
       filter (\<lambda>l. contractorId l \<noteq> ''ctr_a'') (labours demoDoc)"
    "attendance (removeContractor ''ctr_a'' demoDoc) =
       filter (\<lambda>a. labourId a \<notin> id_l ` set (filter (\<lambda>l. contractorId l = ''ctr_a'') (labours demoDoc)))
         (attendance demoDoc)"
    by blast+
  have "removeContractor ''ctr_a'' demoDoc =
       \<lparr>contractors = [\<lparr>id_c = ''ctr_b'', name_c = ''Mohan Pipes'', note_c = Some ''east site''\<rparr>],
        labours = [\<lparr>id_l = ''lab_t'', contractorId = ''ctr_b'', name_l = ''Tarun'', dailyRate = 650\<rparr>],
        attendance = [\<lparr>id_a = ''lab_t:2024-03-05'', labourId = ''lab_t'', date = ''2024-03-05'', present = True\<rparr>]\<rparr>"
    by (rule AppData_eqI) (unfold f, simp_all add: demoDoc_def)
  moreover have "removeContractor ''ctr_z'' demoDoc = demoDoc"
    using c [of "''ctr_z''"] by (simp add: demoDoc_def)
  ultimately show ?thesis using d by simp
qed

lemma Math_round_quarter: "Math_round (7 / 10) = 1" "Math_round 700 = 700" "Math_round (1 / 4) = 0"
  by (simp_all add: Math_round_def floor_eq_iff)

lemma danglingDoc_eq:
  "danglingDoc =
     \<lparr>contractors = [],
      labours = [\<lparr>id_l = ''lab_k3_lx'', contractorId = ''ctr_gone'', name_l = ''Anil'', dailyRate = 700\<rparr>],
      attendance = []\<rparr>"
  by (simp add: danglingDoc_def addLabour_def upsertLabour_def trim_def jsWhiteSpace_def
      initialData_def demoEntropy_def newId_def Math_round_quarter)

text \<open>
  The statement of the specification, which has neither proviso, fails. \<open>danglingDoc\<close> is reachable and
  none of its contractors has the id \<open>ctr_gone\<close>, yet removing it changes the document,
  because the labourer that refers to it goes. In \<open>sharedIdDoc\<close> the labourer of \<open>ctr_b\<close> is removed with its
  contractor, yet the attendance record with its id stays, because the lookup by id finds
  the other labourer with the same id first.
\<close>

theorem removeContractor_cascade_counterexample:
  "reachable danglingDoc
   \<and> ''ctr_gone'' \<notin> id_c ` set (contractors danglingDoc)
   \<and> removeContractor ''ctr_gone'' danglingDoc \<noteq> danglingDoc
   \<and> \<lparr>id_l = ''lab_x'', contractorId = ''ctr_b'', name_l = ''Tarun'', dailyRate = 650\<rparr>
        \<in> set (labours sharedIdDoc)
   \<and> \<lparr>id_l = ''lab_x'', contractorId = ''ctr_b'', name_l = ''Tarun'', dailyRate = 650\<rparr>
        \<notin> set (labours (removeContractor ''ctr_b'' sharedIdDoc))
   \<and> \<lparr>id_a = ''lab_x:2024-03-05'', labourId = ''lab_x'', date = ''2024-03-05'', present = True\<rparr>
        \<in> set (attendance (removeContractor ''ctr_b'' sharedIdDoc))"
proof -
  have "labours (removeContractor ''ctr_gone'' danglingDoc) = []"
    by (simp add: removeContractor_fields danglingDoc_eq)
  moreover have "labours danglingDoc \<noteq> []" by (simp add: danglingDoc_eq)
  ultimately have "removeContractor ''ctr_gone'' danglingDoc \<noteq> danglingDoc" by metis
  moreover have "''ctr_gone'' \<notin> id_c ` set (contractors danglingDoc)"
    by (simp add: danglingDoc_eq)
  moreover have "labours (removeContractor ''ctr_b'' sharedIdDoc) =
      [\<lparr>id_l = ''lab_x'', contractorId = ''ctr_a'', name_l = ''Suresh'', dailyRate = 800\<rparr>]"
    by (simp add: removeContractor_fields sharedIdDoc_def)
  moreover have "attendance (removeContractor ''ctr_b'' sharedIdDoc) =
      [\<lparr>id_a = ''lab_x:2024-03-05'', labourId = ''lab_x'', date = ''2024-03-05'', present = True\<rparr>]"
    by (simp add: removeContractor_fields sharedIdDoc_def)
  moreover have "reachable danglingDoc"
    unfolding danglingDoc_def by (intro reachable.addLabour reachable.initial)
  ultimately show ?thesis by (simp add: sharedIdDoc_def)
qed

section \<open>Adding and removing a contractor\<close>

text \<open>
  C9. For a name that is not blank, adding a contractor and then removing the contractor
  that was just created gives back the document one started from, provided the generated
  id collides with no id in the document: it is not the id of a contractor and no labourer
  refers to it as its contractor.
\<close>

theorem add_then_remove_contractor:
  assumes "trim name \<noteq> []"
    and "newId ''ctr'' e \<notin> id_c ` set (contractors doc)"
    and "newId ''ctr'' e \<notin> contractorId ` set (labours doc)"
  shows "id_c (last (contractors (addContractor e name nt doc))) = newId ''ctr'' e
         \<and> removeContractor (id_c (last (contractors (addContractor e name nt doc))))
             (addContractor e name nt doc) = doc"
proof -
  let ?i = "newId ''ctr'' e"
  let ?c = "\<lparr>id_c = ?i, name_c = trim name,
              note_c = (if trim nt = [] then None else Some (trim nt))\<rparr>"
  let ?d = "addContractor e name nt doc"
  from assms(1) have cs: "contractors ?d = contractors doc @ [?c]"
    by (simp add: addContractor_appends)
  then have newest: "id_c (last (contractors ?d)) = ?i" by simp
  have "removeContractor ?i ?d = doc"
  proof (rule AppData_eqI)
    from assms(2) have "filter (\<lambda>c. id_c c \<noteq> ?i) (contractors doc) = contractors doc"
      by (rule filter_ne_id)
    then show "contractors (removeContractor ?i ?d) = contractors doc"
      by (simp add: removeContractor_fields cs)
    from assms(3) have "filter (\<lambda>l. contractorId l \<noteq> ?i) (labours doc) = labours doc"
      by (rule filter_ne_id)
    then show "labours (removeContractor ?i ?d) = labours doc"
      by (simp add: removeContractor_fields addContractor_other_fields)
    show "attendance (removeContractor ?i ?d) = attendance doc"
      using keeps_attendance_without_labourers [OF assms(3)]
      by (simp add: removeContractor_fields addContractor_other_fields filter_id_conv)
  qed
  with newest show ?thesis by simp
qed

theorem add_then_remove_contractor_witness:
  "trim ''Ravi'' \<noteq> []
   \<and> id_c (last (contractors (addContractor demoEntropy ''Ravi'' [] demoDoc))) = ''ctr_k3_lx''
   \<and> removeContractor (id_c (last (contractors (addContractor demoEntropy ''Ravi'' [] demoDoc))))
        (addContractor demoEntropy ''Ravi'' [] demoDoc) = demoDoc"
proof -
  have h1: "trim ''Ravi'' \<noteq> []" by (simp add: trim_def jsWhiteSpace_def)
  have h2: "newId ''ctr'' demoEntropy \<notin> id_c ` set (contractors demoDoc)"
    by (simp add: newId_def demoEntropy_def demoDoc_def)
  have h3: "newId ''ctr'' demoEntropy \<notin> contractorId ` set (labours demoDoc)"
    by (simp add: newId_def demoEntropy_def demoDoc_def)
  have i: "newId ''ctr'' demoEntropy = ''ctr_k3_lx''" by (simp add: newId_def demoEntropy_def)
  from add_then_remove_contractor [OF h1 h2 h3, of "[]"] h1 show ?thesis
    unfolding i by blast
qed

section \<open>Attendance for an unknown labourer\<close>

lemma addLabour_other_fields:
  "contractors (addLabour e labCtr labName rate prev) = contractors prev"
  "attendance (addLabour e labCtr labName rate prev) = attendance prev"
  by (simp_all add: addLabour_def upsertLabour_def split: number.split)

lemma removeLabour_fields:
  "contractors (removeLabour i prev) = contractors prev"
  "labours (removeLabour i prev) = filter (\<lambda>l. id_l l \<noteq> i) (labours prev)"
  "attendance (removeLabour i prev) = filter (\<lambda>a. labourId a \<noteq> i) (attendance prev)"
  by (simp_all add: removeLabour_def)

lemma removeLabour_cascade: "i \<notin> labourId ` set (attendance (removeLabour i prev))"
  by (auto simp: removeLabour_fields)

lemma orphanDoc_eq:
  "orphanDoc =
     \<lparr>contractors = [], labours = [],
      attendance = [\<lparr>id_a = ''ghost:2024-03-05'', labourId = ''ghost'', date = ''2024-03-05'',
                      present = True\<rparr>]\<rparr>"
  by (simp add: orphanDoc_def setAttendance_def initialData_def Let_def)

text \<open>
  C10, with the case of an existing record. \<open>setAttendance\<close> never looks at the labourers. For a string \<open>L\<close> that
  is the id of no labourer, \<open>L\<close> is still no labourer afterwards and the result holds a
  record with the id \<open>L:D\<close>: when no record had that id, the old list followed by one new
  record whose \<open>labourId\<close> is \<open>L\<close>; when one had, the old list with the \<open>present\<close> flag
  of that record replaced. One call on the initial document gives a document whose only
  attendance record refers to no labourer, so such documents are reachable. Only the
  deletions restore the link: after \<open>removeLabour i\<close> no record refers to \<open>i\<close>.
\<close>

theorem setAttendance_unknown_labourer:
  assumes "L \<notin> id_l ` set (labours doc)"
  shows "L \<notin> id_l ` set (labours (setAttendance L D p doc))
       \<and> L @ '':'' @ D \<in> id_a ` set (attendance (setAttendance L D p doc))
       \<and> (L @ '':'' @ D \<notin> id_a ` set (attendance doc) \<longrightarrow>
            attendance (setAttendance L D p doc) =
              attendance doc @ [\<lparr>id_a = L @ '':'' @ D, labourId = L, date = D, present = p\<rparr>])
       \<and> (L @ '':'' @ D \<in> id_a ` set (attendance doc) \<longrightarrow>
            attendance (setAttendance L D p doc) =
              map (\<lambda>a. if id_a a = L @ '':'' @ D then a\<lparr>present := p\<rparr> else a) (attendance doc))
       \<and> setAttendance L D p initialData =
            \<lparr>contractors = [], labours = [],
             attendance = [\<lparr>id_a = L @ '':'' @ D, labourId = L, date = D, present = p\<rparr>]\<rparr>
       \<and> reachable (setAttendance L D p initialData)
       \<and> i \<notin> labourId ` set (attendance (removeLabour i doc))"
proof (intro conjI impI)
  show "reachable (setAttendance L D p initialData)"
    by (intro reachable.setAttendance reachable.initial)
  from assms show "L \<notin> id_l ` set (labours (setAttendance L D p doc))"
    by (simp add: setAttendance_other_fields)
  show "L @ '':'' @ D \<in> id_a ` set (attendance (setAttendance L D p doc))"
    by (rule id_a_after_setAttendance)
  show "attendance (setAttendance L D p doc) =
          attendance doc @ [\<lparr>id_a = L @ '':'' @ D, labourId = L, date = D, present = p\<rparr>]"
    if "L @ '':'' @ D \<notin> id_a ` set (attendance doc)"
    using that by (simp add: attendance_setAttendance)
  show "attendance (setAttendance L D p doc) =
          map (\<lambda>a. if id_a a = L @ '':'' @ D then a\<lparr>present := p\<rparr> else a) (attendance doc)"
    if "L @ '':'' @ D \<in> id_a ` set (attendance doc)"
    using that by (simp add: attendance_setAttendance)
  show "setAttendance L D p initialData =
            \<lparr>contractors = [], labours = [],
             attendance = [\<lparr>id_a = L @ '':'' @ D, labourId = L, date = D, present = p\<rparr>]\<rparr>"
    by (simp add: setAttendance_def initialData_def Let_def)
  show "i \<notin> labourId ` set (attendance (removeLabour i doc))"
    by (rule removeLabour_cascade)
qed

theorem setAttendance_unknown_labourer_witness:
  "''lab_u'' \<notin> id_l ` set (labours demoDoc)
   \<and> attendance (setAttendance ''lab_u'' ''2024-03-07'' True demoDoc) =
       attendance demoDoc @
         [\<lparr>id_a = ''lab_u:2024-03-07'', labourId = ''lab_u'', date = ''2024-03-07'', present = True\<rparr>]
   \<and> ''lab_u'' \<notin> id_l ` set (labours (setAttendance ''lab_u'' ''2024-03-07'' True demoDoc))
   \<and> attendance (setAttendance ''ghost'' ''2024-03-05'' False orphanDoc) =
       [\<lparr>id_a = ''ghost:2024-03-05'', labourId = ''ghost'', date = ''2024-03-05'', present = False\<rparr>]"
proof -
  have h: "''lab_u'' \<notin> id_l ` set (labours demoDoc)" by (simp add: demoDoc_def)
  have g: "''ghost'' \<notin> id_l ` set (labours orphanDoc)" by (simp add: orphanDoc_eq)
  have n: "''lab_u'' @ '':'' @ ''2024-03-07'' \<notin> id_a ` set (attendance demoDoc)"
    by (simp add: demoDoc_def)
  have o: "''ghost'' @ '':'' @ ''2024-03-05'' \<in> id_a ` set (attendance orphanDoc)"
    by (simp add: orphanDoc_eq)
  from setAttendance_unknown_labourer [OF h, of "''2024-03-07''" True] n
  have "attendance (setAttendance ''lab_u'' ''2024-03-07'' True demoDoc) =
       attendance demoDoc @
         [\<lparr>id_a = ''lab_u:2024-03-07'', labourId = ''lab_u'', date = ''2024-03-07'', present = True\<rparr>]"
    and "''lab_u'' \<notin> id_l ` set (labours (setAttendance ''lab_u'' ''2024-03-07'' True demoDoc))"
    by simp_all
  moreover from setAttendance_unknown_labourer [OF g, of "''2024-03-05''" False] o
  have "attendance (setAttendance ''ghost'' ''2024-03-05'' False orphanDoc) =
      map (\<lambda>a. if id_a a = ''ghost'' @ '':'' @ ''2024-03-05'' then a\<lparr>present := False\<rparr> else a)
        (attendance orphanDoc)"
    by blast
  then have "attendance (setAttendance ''ghost'' ''2024-03-05'' False orphanDoc) =
       [\<lparr>id_a = ''ghost:2024-03-05'', labourId = ''ghost'', date = ''2024-03-05'', present = False\<rparr>]"
    by (simp add: orphanDoc_eq)
  ultimately show ?thesis using h by simp
qed

text \<open>
  The specification says that a record is appended for every such \<open>L\<close>. In
  \<open>orphanDoc\<close> the id \<open>ghost:2024-03-05\<close> is already there and \<open>ghost\<close> is no labourer:
  the call replaces the flag and appends nothing.
\<close>

theorem setAttendance_unknown_labourer_counterexample:
  "''ghost'' \<notin> id_l ` set (labours orphanDoc)
   \<and> length (attendance (setAttendance ''ghost'' ''2024-03-05'' False orphanDoc)) =
       length (attendance orphanDoc)
   \<and> attendance (setAttendance ''ghost'' ''2024-03-05'' False orphanDoc) =
       [\<lparr>id_a = ''ghost:2024-03-05'', labourId = ''ghost'', date = ''2024-03-05'', present = False\<rparr>]"
  by (simp add: orphanDoc_eq attendance_setAttendance)

section \<open>At most one attendance record per labourer and day\<close>

lemma invariants_initial: "idsDistinct initialData" "keyed initialData" "onePerPair initialData"
  by (simp_all add: idsDistinct_def keyed_def onePerPair_def initialData_def)

lemma list_all_filter: "list_all P xs \<Longrightarrow> list_all P (filter Q xs)"
  by (induction xs) auto

lemma keyed_set_present:
  "list_all (\<lambda>a. id_a a = labourId a @ '':'' @ date a) xs \<Longrightarrow>
   list_all (\<lambda>a. id_a a = labourId a @ '':'' @ date a)
     (map (\<lambda>a. if id_a a = i then a\<lparr>present := p\<rparr> else a) xs)"
  by (induction xs) auto

lemma pairs_set_present:
  "map (\<lambda>a. (labourId a, date a)) (map (\<lambda>a. if id_a a = i then a\<lparr>present := p\<rparr> else a) xs) =
   map (\<lambda>a. (labourId a, date a)) xs"
  by (induction xs) auto

lemma keyed_pair_has_id:
  assumes "list_all (\<lambda>a. id_a a = labourId a @ '':'' @ date a) xs"
    and "(L, D) \<in> (\<lambda>a. (labourId a, date a)) ` set xs"
  shows "L @ '':'' @ D \<in> id_a ` set xs"
proof -
  from assms(2) obtain a where a: "a \<in> set xs" "labourId a = L" "date a = D" by auto
  from assms(1) a(1) have "id_a a = labourId a @ '':'' @ date a" by (simp add: list_all_iff)
  with a show ?thesis by force
qed

lemma idsDistinct_preserved:
  assumes "idsDistinct doc"
  shows "idsDistinct (addContractor e n t doc)" "idsDistinct (removeContractor c doc)"
    "idsDistinct (addLabour e' c' n' r doc)" "idsDistinct (removeLabour l doc)"
    "idsDistinct (setAttendance L D p doc)"
proof -
  from assms have d: "distinct (map id_a (attendance doc))" by (simp add: idsDistinct_def)
  from d show "idsDistinct (addContractor e n t doc)"
    by (simp add: idsDistinct_def addContractor_other_fields)
  from d show "idsDistinct (removeContractor c doc)"
    unfolding idsDistinct_def removeContractor_fields by (rule distinct_map_filter)
  from d show "idsDistinct (addLabour e' c' n' r doc)"
    by (simp add: idsDistinct_def addLabour_other_fields)
  from d show "idsDistinct (removeLabour l doc)"
    unfolding idsDistinct_def removeLabour_fields by (rule distinct_map_filter)
  show "idsDistinct (setAttendance L D p doc)"
  proof (cases "L @ '':'' @ D \<in> id_a ` set (attendance doc)")
    case True
    show ?thesis
      unfolding idsDistinct_def setAttendance_existing [OF True] map_id_a_set_present by (rule d)
  next
    case False
    with d show ?thesis
      by (simp add: idsDistinct_def attendance_setAttendance)
  qed
qed

lemma keyed_preserved:
  assumes "keyed doc"
  shows "keyed (addContractor e n t doc)" "keyed (removeContractor c doc)"
    "keyed (addLabour e' c' n' r doc)" "keyed (removeLabour l doc)"
    "keyed (setAttendance L D p doc)"
proof -
  from assms have k: "list_all (\<lambda>a. id_a a = labourId a @ '':'' @ date a) (attendance doc)"
    by (simp add: keyed_def)
  from k show "keyed (addContractor e n t doc)"
    by (simp add: keyed_def addContractor_other_fields)
  from k show "keyed (removeContractor c doc)"
    unfolding keyed_def removeContractor_fields by (rule list_all_filter)
  from k show "keyed (addLabour e' c' n' r doc)"
    by (simp add: keyed_def addLabour_other_fields)
  from k show "keyed (removeLabour l doc)"
    unfolding keyed_def removeLabour_fields by (rule list_all_filter)
  show "keyed (setAttendance L D p doc)"
  proof (cases "L @ '':'' @ D \<in> id_a ` set (attendance doc)")
    case True
    show ?thesis
      unfolding keyed_def setAttendance_existing [OF True] by (rule keyed_set_present [OF k])
  next
    case False
    with k show ?thesis
      by (simp add: keyed_def attendance_setAttendance)
  qed
qed

lemma onePerPair_preserved:
  assumes "keyed doc" and "onePerPair doc"
  shows "onePerPair (addContractor e n t doc)" "onePerPair (removeContractor c doc)"
    "onePerPair (addLabour e' c' n' r doc)" "onePerPair (removeLabour l doc)"
    "onePerPair (setAttendance L D p doc)"
proof -
  from assms(1) have k: "list_all (\<lambda>a. id_a a = labourId a @ '':'' @ date a) (attendance doc)"
    by (simp add: keyed_def)
  from assms(2) have d: "distinct (map (\<lambda>a. (labourId a, date a)) (attendance doc))"
    by (simp add: onePerPair_def)
  from d show "onePerPair (addContractor e n t doc)"
    by (simp add: onePerPair_def addContractor_other_fields)
  from d show "onePerPair (removeContractor c doc)"
    unfolding onePerPair_def removeContractor_fields by (rule distinct_map_filter)
  from d show "onePerPair (addLabour e' c' n' r doc)"
    by (simp add: onePerPair_def addLabour_other_fields)
  from d show "onePerPair (removeLabour l doc)"
    unfolding onePerPair_def removeLabour_fields by (rule distinct_map_filter)
  show "onePerPair (setAttendance L D p doc)"
  proof (cases "L @ '':'' @ D \<in> id_a ` set (attendance doc)")
    case True
    show ?thesis
      unfolding onePerPair_def setAttendance_existing [OF True] pairs_set_present by (rule d)
  next
    case False
    with keyed_pair_has_id [OF k, of L D]
    have "(L, D) \<notin> (\<lambda>a. (labourId a, date a)) ` set (attendance doc)" by blast
    with d False show ?thesis
      by (simp add: onePerPair_def attendance_setAttendance)
  qed
qed

lemma distinct_map_outer: "distinct (map g ys) \<Longrightarrow> distinct ys"
  by (simp add: distinct_map)

lemma keyed_ids_are_composites:
  "list_all (\<lambda>a. id_a a = labourId a @ '':'' @ date a) xs \<Longrightarrow>
   map id_a xs = map (\<lambda>(l, d). l @ '':'' @ d) (map (\<lambda>a. (labourId a, date a)) xs)"
  by (induction xs) auto

lemma idsDistinct_onePerPair:
  assumes "keyed doc" and "idsDistinct doc"
  shows "onePerPair doc"
proof -
  from assms(1) have "map id_a (attendance doc) =
      map (\<lambda>(l, d). l @ '':'' @ d) (map (\<lambda>a. (labourId a, date a)) (attendance doc))"
    unfolding keyed_def by (rule keyed_ids_are_composites)
  with assms(2) have "distinct (map (\<lambda>(l, d). l @ '':'' @ d)
      (map (\<lambda>a. (labourId a, date a)) (attendance doc)))"
    by (simp add: idsDistinct_def)
  then show ?thesis unfolding onePerPair_def by (rule distinct_map_outer)
qed

lemma no_colon_split: "c \<notin> set xs \<Longrightarrow> xs = ys @ c # zs \<Longrightarrow> False"
  by auto

lemma composite_inj:
  assumes "L @ '':'' @ D = L' @ '':'' @ D'" and "CHR '':'' \<notin> set D" and "CHR '':'' \<notin> set D'"
  shows "L = L' \<and> D = D'"
proof -
  have eq: "rev D @ CHR '':'' # rev L = rev D' @ CHR '':'' # rev L'"
    using arg_cong [OF assms(1), of rev] by simp
  have n: "CHR '':'' \<notin> set (rev D)" and n': "CHR '':'' \<notin> set (rev D')"
    using assms(2,3) by simp_all
  from eq have "rev D = rev D' \<and> rev L = rev L'"
    by (auto simp: append_eq_append_conv2 append_eq_Cons_conv Cons_eq_append_conv
          dest: no_colon_split [OF n] no_colon_split [OF n'] no_colon_split [OF n, OF sym]
            no_colon_split [OF n', OF sym])
  then show ?thesis by simp
qed

lemma onePerPair_idsDistinct:
  assumes "keyed doc" and "list_all (\<lambda>a. CHR '':'' \<notin> set (date a)) (attendance doc)"
    and "onePerPair doc"
  shows "idsDistinct doc"
proof -
  let ?ps = "map (\<lambda>a. (labourId a, date a)) (attendance doc)"
  let ?g = "\<lambda>(l, d). l @ '':'' @ d"
  from assms(1) have ids: "map id_a (attendance doc) = map ?g ?ps"
    unfolding keyed_def by (rule keyed_ids_are_composites)
  from assms(2) have dates: "CHR '':'' \<notin> set d" if "(l, d) \<in> set ?ps" for l d
    using that by (auto simp: list_all_iff)
  have "inj_on ?g (set ?ps)"
  proof (rule inj_onI)
    fix x y assume x: "x \<in> set ?ps" and y: "y \<in> set ?ps" and eq: "?g x = ?g y"
    obtain l d where xd: "x = (l, d)" by (cases x)
    obtain l' d' where yd: "y = (l', d')" by (cases y)
    from eq have "l @ '':'' @ d = l' @ '':'' @ d'" by (simp add: xd yd)
    moreover from x dates have "CHR '':'' \<notin> set d" unfolding xd by blast
    moreover from y dates have "CHR '':'' \<notin> set d'" unfolding yd by blast
    ultimately have "l = l' \<and> d = d'" by (rule composite_inj)
    then show "x = y" by (simp add: xd yd)
  qed
  moreover from assms(3) have "distinct ?ps" by (simp add: onePerPair_def)
  ultimately have "distinct (map ?g ?ps)" by (simp only: distinct_map simp_thms)
  with ids show ?thesis by (simp only: idsDistinct_def)
qed

lemma setAttendance_existing_pair:
  assumes "keyed doc" and "(L, D) \<in> (\<lambda>a. (labourId a, date a)) ` set (attendance doc)"
  shows "length (attendance (setAttendance L D p doc)) = length (attendance doc)"
    and "map id_a (attendance (setAttendance L D p doc)) = map id_a (attendance doc)"
    and "map (\<lambda>a. (labourId a, date a)) (attendance (setAttendance L D p doc)) =
         map (\<lambda>a. (labourId a, date a)) (attendance doc)"
proof -
  from assms have "L @ '':'' @ D \<in> id_a ` set (attendance doc)"
    unfolding keyed_def by (rule keyed_pair_has_id)
  note e = setAttendance_existing [OF this]
  show "length (attendance (setAttendance L D p doc)) = length (attendance doc)"
    unfolding e by simp
  show "map id_a (attendance (setAttendance L D p doc)) = map id_a (attendance doc)"
    unfolding e by (rule map_id_a_set_present)
  show "map (\<lambda>a. (labourId a, date a)) (attendance (setAttendance L D p doc)) =
         map (\<lambda>a. (labourId a, date a)) (attendance doc)"
    unfolding e by (rule pairs_set_present)
qed

lemma reachable_invariants:
  "reachable doc \<Longrightarrow> idsDistinct doc \<and> keyed doc \<and> onePerPair doc"
proof (induction rule: reachable.induct)
  case initial
  show ?case by (simp add: invariants_initial)
next
  case (addContractor d e ctrName ctrNote)
  then show ?case by (simp add: idsDistinct_preserved keyed_preserved onePerPair_preserved)
next
  case (removeContractor d i)
  then show ?case by (simp add: idsDistinct_preserved keyed_preserved onePerPair_preserved)
next
  case (addLabour d e labCtr labName rate)
  then show ?case by (simp add: idsDistinct_preserved keyed_preserved onePerPair_preserved)
next
  case (removeLabour d i)
  then show ?case by (simp add: idsDistinct_preserved keyed_preserved onePerPair_preserved)
next
  case (setAttendance d lid ymd p)
  then show ?case by (simp add: idsDistinct_preserved keyed_preserved onePerPair_preserved)
qed

lemma filter_pair_set_present:
  "filter (\<lambda>a. labourId a = L \<and> date a = D)
     (map (\<lambda>a. if id_a a = i then a\<lparr>present := p\<rparr> else a) xs) =
   map (\<lambda>a. if id_a a = i then a\<lparr>present := p\<rparr> else a)
     (filter (\<lambda>a. labourId a = L \<and> date a = D) xs)"
  by (induction xs) auto

lemma present_of_pair:
  assumes "list_all (\<lambda>a. id_a a = labourId a @ '':'' @ date a) xs"
  shows "list_all (\<lambda>a. present a = p)
           (filter (\<lambda>a. labourId a = L \<and> date a = D)
              (map (\<lambda>a. if id_a a = L @ '':'' @ D then a\<lparr>present := p\<rparr> else a) xs))"
  using assms by (induction xs) auto

lemma filter_distinct_key:
  assumes "distinct (map f xs)" and "a \<in> set xs"
  shows "filter (\<lambda>x. f x = f a) xs = [a]"
  using assms
proof (induction xs)
  case Nil
  then show ?case by simp
next
  case (Cons x xs)
  show ?case
  proof (cases "x = a")
    case True
    from Cons.prems(1) have "f a \<notin> f ` set xs" by (simp add: True)
    then have "f x \<noteq> f a" if "x \<in> set xs" for x using that by (metis imageI)
    then have "filter (\<lambda>x. f x = f a) xs = []" by (simp add: filter_empty_conv)
    with True show ?thesis by simp
  next
    case False
    with Cons.prems(2) have a: "a \<in> set xs" by simp
    with Cons.prems(1) have "f x \<noteq> f a" by auto
    moreover from Cons.prems(1) a have "filter (\<lambda>x. f x = f a) xs = [a]"
      by (intro Cons.IH) simp_all
    ultimately show ?thesis by simp
  qed
qed

lemma one_record_after_setAttendance:
  assumes k: "keyed doc" and o: "onePerPair doc"
    and c: "list_all (\<lambda>a. CHR '':'' \<notin> set (date a)) (attendance doc)"
    and d: "CHR '':'' \<notin> set D"
  shows "filter (\<lambda>a. labourId a = L \<and> date a = D) (attendance (setAttendance L D p doc)) =
         [\<lparr>id_a = L @ '':'' @ D, labourId = L, date = D, present = p\<rparr>]"
proof (cases "L @ '':'' @ D \<in> id_a ` set (attendance doc)")
  case True
  then obtain a where a: "a \<in> set (attendance doc)" "id_a a = L @ '':'' @ D" by auto
  from k a(1) have ka: "id_a a = labourId a @ '':'' @ date a"
    by (simp add: keyed_def list_all_iff)
  from c a(1) have "CHR '':'' \<notin> set (date a)" by (simp add: list_all_iff)
  with ka a(2) d have la: "labourId a = L \<and> date a = D"
    by (intro composite_inj) simp_all
  have "filter (\<lambda>x. (labourId x, date x) = (labourId a, date a)) (attendance doc) = [a]"
    using o a(1) unfolding onePerPair_def by (intro filter_distinct_key) simp_all
  with la have f: "filter (\<lambda>x. labourId x = L \<and> date x = D) (attendance doc) = [a]" by simp
  have "a\<lparr>present := p\<rparr> = \<lparr>id_a = L @ '':'' @ D, labourId = L, date = D, present = p\<rparr>"
    using la a(2) by (cases a) simp
  with a(2) show ?thesis
    unfolding setAttendance_existing [OF True] filter_pair_set_present f by simp
next
  case False
  have "filter (\<lambda>x. labourId x = L \<and> date x = D) (attendance doc) = []"
  proof (rule ccontr)
    assume "filter (\<lambda>x. labourId x = L \<and> date x = D) (attendance doc) \<noteq> []"
    then obtain a where a: "a \<in> set (attendance doc)" "labourId a = L" "date a = D"
      by (auto simp: filter_empty_conv)
    from k a(1) have "id_a a = labourId a @ '':'' @ date a"
      by (simp add: keyed_def list_all_iff)
    with a have "L @ '':'' @ D \<in> id_a ` set (attendance doc)" by force
    with False show False ..
  qed
  then show ?thesis unfolding setAttendance_new [OF False] by simp
qed

text \<open>
  C6. The attendance ids of the initial document are pairwise distinct, and each of
  the five mutations keeps them so, from any document. A record made by \<open>setAttendance\<close>
  has the composite of its labourer and date as id (\<open>keyed\<close>); that too holds initially
  and is kept by every mutation, and together with it the property that no two records
  share labourer and date is kept as well. So every reachable document has all three. In a
  keyed document distinct ids give at most one record per labourer and day, and the
  converse holds when no date contains a colon, as is the case for \<open>yyyy-mm-dd\<close>.
  Setting the attendance of a pair that has a record changes neither the number of records
  nor their ids, labourers and dates: the new list is the old one with the \<open>present\<close>
  flag of the records with the composite id replaced by the given value, so every record
  of the pair now carries that value. With dates free of colons, the records of the pair
  after the call are exactly one record, carrying the given value.
\<close>

theorem attendance_key_invariant:
  "idsDistinct initialData \<and> keyed initialData \<and> onePerPair initialData
   \<and> (idsDistinct doc \<longrightarrow>
        idsDistinct (addContractor e n t doc) \<and> idsDistinct (removeContractor c doc)
        \<and> idsDistinct (addLabour e' c' n' r doc) \<and> idsDistinct (removeLabour l doc)
        \<and> idsDistinct (setAttendance L D p doc))
   \<and> (keyed doc \<longrightarrow>
        keyed (addContractor e n t doc) \<and> keyed (removeContractor c doc)
        \<and> keyed (addLabour e' c' n' r doc) \<and> keyed (removeLabour l doc)
        \<and> keyed (setAttendance L D p doc))
   \<and> (keyed doc \<and> onePerPair doc \<longrightarrow>
        onePerPair (addContractor e n t doc) \<and> onePerPair (removeContractor c doc)
        \<and> onePerPair (addLabour e' c' n' r doc) \<and> onePerPair (removeLabour l doc)
        \<and> onePerPair (setAttendance L D p doc))
   \<and> (reachable doc \<longrightarrow> idsDistinct doc \<and> keyed doc \<and> onePerPair doc)
   \<and> (keyed doc \<and> idsDistinct doc \<longrightarrow> onePerPair doc)
   \<and> (keyed doc \<and> list_all (\<lambda>a. CHR '':'' \<notin> set (date a)) (attendance doc) \<and> onePerPair doc
        \<longrightarrow> idsDistinct doc)
   \<and> (keyed doc \<and> (L, D) \<in> (\<lambda>a. (labourId a, date a)) ` set (attendance doc) \<longrightarrow>
        length (attendance (setAttendance L D p doc)) = length (attendance doc)
        \<and> map id_a (attendance (setAttendance L D p doc)) = map id_a (attendance doc)
        \<and> map (\<lambda>a. (labourId a, date a)) (attendance (setAttendance L D p doc)) =
            map (\<lambda>a. (labourId a, date a)) (attendance doc)
        \<and> attendance (setAttendance L D p doc) =
            map (\<lambda>a. if id_a a = L @ '':'' @ D then a\<lparr>present := p\<rparr> else a) (attendance doc)
        \<and> list_all (\<lambda>a. present a = p)
            (filter (\<lambda>a. labourId a = L \<and> date a = D) (attendance (setAttendance L D p doc))))
   \<and> (keyed doc \<and> onePerPair doc
        \<and> list_all (\<lambda>a. CHR '':'' \<notin> set (date a)) (attendance doc) \<and> CHR '':'' \<notin> set D \<longrightarrow>
        filter (\<lambda>a. labourId a = L \<and> date a = D) (attendance (setAttendance L D p doc)) =
          [\<lparr>id_a = L @ '':'' @ D, labourId = L, date = D, present = p\<rparr>])"
proof (intro conjI impI)
  show "idsDistinct initialData" "keyed initialData" "onePerPair initialData"
    by (rule invariants_initial)+
next
  assume "idsDistinct doc"
  then show "idsDistinct (addContractor e n t doc)" "idsDistinct (removeContractor c doc)"
    "idsDistinct (addLabour e' c' n' r doc)" "idsDistinct (removeLabour l doc)"
    "idsDistinct (setAttendance L D p doc)"
    by (rule idsDistinct_preserved)+
next
  assume "keyed doc"
  then show "keyed (addContractor e n t doc)" "keyed (removeContractor c doc)"
    "keyed (addLabour e' c' n' r doc)" "keyed (removeLabour l doc)"
    "keyed (setAttendance L D p doc)"
    by (rule keyed_preserved)+
next
  assume "keyed doc \<and> onePerPair doc"
  then have k: "keyed doc" and o: "onePerPair doc" by simp_all
  show "onePerPair (addContractor e n t doc)" "onePerPair (removeContractor c doc)"
    "onePerPair (addLabour e' c' n' r doc)" "onePerPair (removeLabour l doc)"
    "onePerPair (setAttendance L D p doc)"
    by (rule onePerPair_preserved [OF k o])+
next
  assume "reachable doc"
  then show "idsDistinct doc" "keyed doc" "onePerPair doc"
    by (simp_all add: reachable_invariants)
next
  assume "keyed doc \<and> idsDistinct doc"
  then show "onePerPair doc" by (simp add: idsDistinct_onePerPair)
next
  assume "keyed doc \<and> list_all (\<lambda>a. CHR '':'' \<notin> set (date a)) (attendance doc) \<and> onePerPair doc"
  then show "idsDistinct doc" by (simp add: onePerPair_idsDistinct)
next
  assume "keyed doc \<and> (L, D) \<in> (\<lambda>a. (labourId a, date a)) ` set (attendance doc)"
  then have k: "keyed doc" and m: "(L, D) \<in> (\<lambda>a. (labourId a, date a)) ` set (attendance doc)"
    by simp_all
  show "length (attendance (setAttendance L D p doc)) = length (attendance doc)"
    "map id_a (attendance (setAttendance L D p doc)) = map id_a (attendance doc)"
    "map (\<lambda>a. (labourId a, date a)) (attendance (setAttendance L D p doc)) =
            map (\<lambda>a. (labourId a, date a)) (attendance doc)"
    by (rule setAttendance_existing_pair [OF k m])+
  from k m have i: "L @ '':'' @ D \<in> id_a ` set (attendance doc)"
    unfolding keyed_def by (rule keyed_pair_has_id)
  show "attendance (setAttendance L D p doc) =
            map (\<lambda>a. if id_a a = L @ '':'' @ D then a\<lparr>present := p\<rparr> else a) (attendance doc)"
    by (rule setAttendance_existing [OF i])
  from k show "list_all (\<lambda>a. present a = p)
            (filter (\<lambda>a. labourId a = L \<and> date a = D) (attendance (setAttendance L D p doc)))"
    unfolding setAttendance_existing [OF i] keyed_def by (rule present_of_pair)
next
  assume "keyed doc \<and> onePerPair doc
        \<and> list_all (\<lambda>a. CHR '':'' \<notin> set (date a)) (attendance doc) \<and> CHR '':'' \<notin> set D"
  then show "filter (\<lambda>a. labourId a = L \<and> date a = D) (attendance (setAttendance L D p doc)) =
          [\<lparr>id_a = L @ '':'' @ D, labourId = L, date = D, present = p\<rparr>]"
    by (intro one_record_after_setAttendance) simp_all
qed

text \<open>
  On the example document, un-ticking Suresh on 5 March keeps the three records and turns
  the flag of the first one, which was set, to false.
\<close>

theorem attendance_key_invariant_witness:
  "idsDistinct demoDoc \<and> keyed demoDoc \<and> onePerPair demoDoc
   \<and> idsDistinct (setAttendance ''lab_s'' ''2024-03-05'' False demoDoc)
   \<and> onePerPair (setAttendance ''lab_s'' ''2024-03-05'' False demoDoc)
   \<and> length (attendance (setAttendance ''lab_s'' ''2024-03-05'' False demoDoc)) = 3
   \<and> idsDistinct (removeLabour ''lab_s'' demoDoc)
   \<and> present (attendance demoDoc ! 0) = True
   \<and> attendance (setAttendance ''lab_s'' ''2024-03-05'' False demoDoc) =
       [\<lparr>id_a = ''lab_s:2024-03-05'', labourId = ''lab_s'', date = ''2024-03-05'', present = False\<rparr>,
        \<lparr>id_a = ''lab_t:2024-03-05'', labourId = ''lab_t'', date = ''2024-03-05'', present = True\<rparr>,
        \<lparr>id_a = ''lab_s:2024-03-12'', labourId = ''lab_s'', date = ''2024-03-12'', present = True\<rparr>]
   \<and> filter (\<lambda>a. labourId a = ''lab_s'' \<and> date a = ''2024-03-05'')
       (attendance (setAttendance ''lab_s'' ''2024-03-05'' False demoDoc)) =
       [\<lparr>id_a = ''lab_s:2024-03-05'', labourId = ''lab_s'', date = ''2024-03-05'', present = False\<rparr>]"
proof -
  have i: "idsDistinct demoDoc" by (simp add: idsDistinct_def demoDoc_def)
  have k: "keyed demoDoc" by (simp add: keyed_def demoDoc_def)
  have m: "(''lab_s'', ''2024-03-05'') \<in> (\<lambda>a. (labourId a, date a)) ` set (attendance demoDoc)"
    by (simp add: demoDoc_def)
  have n: "length (attendance demoDoc) = 3" by (simp add: demoDoc_def)
  have c: "list_all (\<lambda>a. CHR '':'' \<notin> set (date a)) (attendance demoDoc)"
    "CHR '':'' \<notin> set ''2024-03-05''"
    by (simp_all add: demoDoc_def)
  have was: "present (attendance demoDoc ! 0) = True" by (simp add: demoDoc_def)
  note t = attendance_key_invariant [of demoDoc _ _ _ _ _ _ _ _ "''lab_s''" "''lab_s''" "''2024-03-05''" False]
  from t i k have o: "onePerPair demoDoc" by blast
  from t i have "idsDistinct (setAttendance ''lab_s'' ''2024-03-05'' False demoDoc)"
    and "idsDistinct (removeLabour ''lab_s'' demoDoc)" by blast+
  moreover from t k o have "onePerPair (setAttendance ''lab_s'' ''2024-03-05'' False demoDoc)" by blast
  moreover from t k m n have "length (attendance (setAttendance ''lab_s'' ''2024-03-05'' False demoDoc)) = 3"
    by simp
  moreover from t k m have "attendance (setAttendance ''lab_s'' ''2024-03-05'' False demoDoc) =
      map (\<lambda>a. if id_a a = ''lab_s'' @ '':'' @ ''2024-03-05'' then a\<lparr>present := False\<rparr> else a)
        (attendance demoDoc)"
    by blast
  then have "attendance (setAttendance ''lab_s'' ''2024-03-05'' False demoDoc) =
       [\<lparr>id_a = ''lab_s:2024-03-05'', labourId = ''lab_s'', date = ''2024-03-05'', present = False\<rparr>,
        \<lparr>id_a = ''lab_t:2024-03-05'', labourId = ''lab_t'', date = ''2024-03-05'', present = True\<rparr>,
        \<lparr>id_a = ''lab_s:2024-03-12'', labourId = ''lab_s'', date = ''2024-03-12'', present = True\<rparr>]"
    by (simp add: demoDoc_def)
  moreover from t k o c have "filter (\<lambda>a. labourId a = ''lab_s'' \<and> date a = ''2024-03-05'')
       (attendance (setAttendance ''lab_s'' ''2024-03-05'' False demoDoc)) =
       [\<lparr>id_a = ''lab_s'' @ '':'' @ ''2024-03-05'', labourId = ''lab_s'', date = ''2024-03-05'',
         present = False\<rparr>]"
    by blast
  ultimately show ?thesis using i k o was by simp
qed

section \<open>Adding a labourer\<close>

lemma addLabour_rejects:
  "labCtr = [] \<or> trim labName = [] \<or> \<not> Number_isFinite rate \<or> le_zero rate \<Longrightarrow>
   addLabour e labCtr labName rate prev = prev"
  by (simp add: addLabour_def)

lemma not_finite_positive:
  "(\<not> Number_isFinite rate \<or> le_zero rate) \<longleftrightarrow> \<not> (\<exists>r. rate = Finite r \<and> 0 < r)"
  by (cases rate) auto

lemma addLabour_stores:
  "labCtr \<noteq> [] \<Longrightarrow> trim labName \<noteq> [] \<Longrightarrow> 0 < r \<Longrightarrow>
   addLabour e labCtr labName (Finite r) prev =
     prev\<lparr>labours := labours prev @
       [\<lparr>id_l = newId ''lab'' e, contractorId = labCtr, name_l = trim labName,
         dailyRate = Math_round r\<rparr>]\<rparr>"
  by (simp add: addLabour_def upsertLabour_def)

lemma Math_round_nearest: "\<bar>of_int (Math_round r) - r\<bar> \<le> 1 / 2"
  unfolding Math_round_def by linarith

lemma Math_round_positive_iff: "0 < Math_round r \<longleftrightarrow> 1 / 2 \<le> r"
  unfolding Math_round_def by linarith

lemma Math_round_nonneg: "0 < r \<Longrightarrow> 0 \<le> Math_round r"
  unfolding Math_round_def by linarith

text \<open>
  The handler rejects a missing contractor, a blank name and a rate that is not a finite
  positive number (\<open>addLabour_rejects\<close>, \<open>not_finite_positive\<close>), and what it stores is
  the rate rounded to the nearest integer (\<open>addLabour_stores\<close>, \<open>Math_round_nearest\<close>).
  The rounded rate is positive only from one half upwards (\<open>Math_round_positive_iff\<close>).

  C8. The rate is tested before it is rounded. The input \<open>0.25\<close> is finite and
  positive, passes the test, and is stored as the daily rate 0, which is not a positive
  integer.
\<close>

theorem addLabour_stores_zero_rate:
  "Number_isFinite (Finite (1 / 4)) \<and> \<not> le_zero (Finite (1 / 4))
   \<and> labours (addLabour demoEntropy ''ctr_a'' ''Suresh'' (Finite (1 / 4)) demoDoc) =
       labours demoDoc @
         [\<lparr>id_l = ''lab_k3_lx'', contractorId = ''ctr_a'', name_l = ''Suresh'', dailyRate = 0\<rparr>]"
proof -
  have t: "trim ''Suresh'' = ''Suresh''" by (simp add: trim_def jsWhiteSpace_def)
  have "addLabour demoEntropy ''ctr_a'' ''Suresh'' (Finite (1 / 4)) demoDoc =
      demoDoc\<lparr>labours := labours demoDoc @
       [\<lparr>id_l = newId ''lab'' demoEntropy, contractorId = ''ctr_a'', name_l = trim ''Suresh'',
         dailyRate = Math_round (1 / 4)\<rparr>]\<rparr>"
    by (rule addLabour_stores) (simp_all add: t)
  then show ?thesis
    by (simp add: t Math_round_quarter newId_def demoEntropy_def)
qed

theorem addLabour_stores_zero_rate_witness:
  "dailyRate (last (labours (addLabour demoEntropy ''ctr_a'' ''Suresh'' (Finite (1 / 4)) demoDoc))) = 0"
  using addLabour_stores_zero_rate by simp

section \<open>The calendar grid\<close>

lemma pad_count_aux:
  fixes r :: nat
  assumes "r < 7" and "r \<noteq> 0"
  shows "Suc ((7 - (if Suc r = 7 then 0 else Suc r)) mod 7) = (7 - r) mod 7"
proof (cases "r = 6")
  case True
  then show ?thesis by simp
next
  case False
  with assms have lt: "Suc r < 7" by simp
  with assms have "(7 - Suc r) mod 7 = 7 - Suc r" and "(7 - r) mod 7 = 7 - r" by simp_all
  with lt show ?thesis by simp
qed

lemma pad_count_step:
  fixes n :: nat
  assumes "n mod 7 \<noteq> 0"
  shows "Suc ((7 - Suc n mod 7) mod 7) = (7 - n mod 7) mod 7"
  using pad_count_aux [of "n mod 7"] assms by (simp only: mod_Suc [of n 7]) simp

lemma padWeek_eq: "padWeek cells = cells @ replicate ((7 - length cells mod 7) mod 7) None"
proof (induction cells rule: padWeek.induct)
  case (1 cells)
  show ?case
  proof (cases "length cells mod 7 = 0")
    case True
    then show ?thesis by (subst padWeek.simps) simp
  next
    case False
    from False have "padWeek cells = padWeek (cells @ [None])" by (subst padWeek.simps) simp
    also from False have "\<dots> = (cells @ [None]) @
        replicate ((7 - length (cells @ [None]) mod 7) mod 7) None"
      by (rule "1.IH")
    also have "\<dots> = cells @ replicate (Suc ((7 - Suc (length cells) mod 7) mod 7)) None"
      by simp
    also have "\<dots> = cells @ replicate ((7 - length cells mod 7) mod 7) None"
      by (simp only: pad_count_step [OF False])
    finally show ?thesis .
  qed
qed

lemma pad_total_aux:
  fixes q r :: nat
  assumes "r < 7"
  shows "(7 * q + r + (7 - r) mod 7) div 7 = (7 * q + r + 6) div 7"
    and "(7 * q + r + (7 - r) mod 7) mod 7 = 0"
proof -
  show "(7 * q + r + (7 - r) mod 7) div 7 = (7 * q + r + 6) div 7"
  proof (cases "r = 0")
    case True
    then show ?thesis by simp
  next
    case False
    with assms have a: "(7 - r) mod 7 = 7 - r" and b: "(r + 6) div 7 = 1" by simp_all
    from assms have "7 * q + r + (7 - r) = 7 * (q + 1)" by simp
    then have "(7 * q + r + (7 - r)) div 7 = q + 1" by (simp only: nonzero_mult_div_cancel_left)
    moreover have "(7 * q + r + 6) div 7 = q + (r + 6) div 7"
      by (simp add: add.assoc)
    ultimately show ?thesis using a b by simp
  qed
  show "(7 * q + r + (7 - r) mod 7) mod 7 = 0"
  proof (cases "r = 0")
    case True
    then show ?thesis by simp
  next
    case False
    with assms have a: "(7 - r) mod 7 = 7 - r" by simp
    from assms have "7 * q + r + (7 - r) = 7 * (q + 1)" by simp
    then show ?thesis unfolding a by (simp only: mod_mult_self1_is_0)
  qed
qed

lemma pad_total:
  fixes n :: nat
  shows "(n + (7 - n mod 7) mod 7) div 7 = (n + 6) div 7"
    and "(n + (7 - n mod 7) mod 7) mod 7 = 0"
proof -
  have r: "n mod 7 < 7" by simp
  have n: "n = 7 * (n div 7) + n mod 7" by simp
  from pad_total_aux(1) [OF r, of "n div 7"]
  show "(n + (7 - n mod 7) mod 7) div 7 = (n + 6) div 7" by (simp only: n [symmetric])
  from pad_total_aux(2) [OF r, of "n div 7"]
  show "(n + (7 - n mod 7) mod 7) mod 7 = 0" by (simp only: n [symmetric])
qed

lemma week_step:
  fixes i n :: nat
  assumes "n mod 7 = 0" and "i mod 7 = 0" and "i < n"
  shows "i + 7 \<le> n" and "(n - i) div 7 = Suc ((n - (i + 7)) div 7)"
proof -
  from assms(1) obtain a where a: "n = 7 * a" by (auto elim: dvdE simp: mod_eq_0_iff_dvd)
  from assms(2) obtain b where b: "i = 7 * b" by (auto elim: dvdE simp: mod_eq_0_iff_dvd)
  from assms(3) have "b < a" unfolding a b by simp
  then obtain c where c: "a = b + Suc c" by (auto simp: less_iff_Suc_add)
  show "i + 7 \<le> n" unfolding a b c by simp
  have "n - i = 7 * Suc c" "n - (i + 7) = 7 * c" unfolding a b c by simp_all
  then show "(n - i) div 7 = Suc ((n - (i + 7)) div 7)" by simp
qed

lemma rowsFrom_weeks:
  assumes "length cells mod 7 = 0" and "i mod 7 = 0"
  shows "concat (rowsFrom cells i) = drop i cells
       \<and> list_all (\<lambda>r. length r = 7) (rowsFrom cells i)
       \<and> length (rowsFrom cells i) = (length cells - i) div 7"
  using assms
proof (induction cells i rule: rowsFrom.induct)
  case (1 cells i)
  show ?case
  proof (cases "i < length cells")
    case False
    then have "rowsFrom cells i = []" by (subst rowsFrom.simps) simp
    with False show ?thesis by simp
  next
    case True
    note step = week_step [OF "1.prems"(1) "1.prems"(2) True]
    from "1.prems"(2) have "(i + 7) mod 7 = 0" by simp
    with "1.IH" [OF True "1.prems"(1)]
    have ih: "concat (rowsFrom cells (i + 7)) = drop (i + 7) cells"
      "list_all (\<lambda>r. length r = 7) (rowsFrom cells (i + 7))"
      "length (rowsFrom cells (i + 7)) = (length cells - (i + 7)) div 7"
      by simp_all
    from True have unf: "rowsFrom cells i = take 7 (drop i cells) # rowsFrom cells (i + 7)"
      by (subst rowsFrom.simps) simp
    have "take 7 (drop i cells) @ drop (i + 7) cells = drop i cells"
      using append_take_drop_id [of 7 "drop i cells"] by (simp add: add.commute)
    moreover from step(1) have "length (take 7 (drop i cells)) = 7" by simp
    ultimately show ?thesis unfolding unf using ih step(2) by simp
  qed
qed

lemma ceiling_sevenths: "\<lceil>(of_nat s :: rat) / 7\<rceil> = int ((s + 6) div 7)"
proof (rule ceiling_unique)
  define q where "q = (s + 6) div 7"
  define r where "r = (s + 6) mod 7"
  have r: "r < 7" unfolding r_def by simp
  have "s + 6 = 7 * q + r" unfolding q_def r_def by simp
  then have s: "int s = 7 * int q + int r - 6" by linarith
  have "(of_nat s :: rat) = of_int (int s)" by simp
  also have "\<dots> = of_int (7 * int q + int r - 6)" by (simp only: s)
  finally have e: "(of_nat s :: rat) = 7 * of_nat q + of_nat r - 6" by simp
  from r have r': "(of_nat r :: rat) < 7" "(0 :: rat) \<le> of_nat r" by simp_all
  from r' show "of_int (int ((s + 6) div 7)) - 1 < (of_nat s :: rat) / 7"
    unfolding e q_def [symmetric] by (simp add: field_simps)
  from r have "(of_nat r :: rat) \<le> 6" by simp
  then show "(of_nat s :: rat) / 7 \<le> of_int (int ((s + 6) div 7))"
    unfolding e q_def [symmetric] by (simp add: field_simps)
qed

lemma filter_padded_days:
  "filter (\<lambda>c. c \<noteq> None) (replicate w None @ map (\<lambda>d. Some (f d)) ds @ replicate t None) =
   map (\<lambda>d. Some (f d)) ds"
proof -
  have "filter (\<lambda>c. c \<noteq> None) (map (\<lambda>d. Some (f d)) ds) = map (\<lambda>d. Some (f d)) ds"
    by (induction ds) simp_all
  then show ?thesis by simp
qed

lemma weekDay_less: "weekDay dt < 7"
proof -
  have "(dayNumber dt + 4) mod 7 < 7" by (rule pos_mod_bound) simp
  moreover have "0 \<le> (dayNumber dt + 4) mod 7" by (rule pos_mod_sign) simp
  ultimately show ?thesis unfolding weekDay_def by linarith
qed

text \<open>
  In a regular month the cells are the padding for the weekday of day 1 and the Dates that
  the constructor returns for the days 1 to the last, padded to full weeks.
\<close>

lemma regularMonth_day:
  assumes "regularMonth P dt y mo" and "1 \<le> d" and "d \<le> monthLength y mo"
  shows "getFullYear P (newDate P (Some y) (Some (int mo)) (Some (int d))) = Some y"
    and "getMonth P (newDate P (Some y) (Some (int mo)) (Some (int d))) = Some (int mo)"
    and "getDate P (newDate P (Some y) (Some (int mo)) (Some (int d))) = Some (int d)"
proof -
  from assms(2,3) have "d \<in> set [1..<monthLength y mo + 1]" by (simp del: upt_Suc)
  with assms(1) have
    "getFullYear P (newDate P (Some y) (Some (int mo)) (Some (int d))) = Some y
     \<and> getMonth P (newDate P (Some y) (Some (int mo)) (Some (int d))) = Some (int mo)
     \<and> getDate P (newDate P (Some y) (Some (int mo)) (Some (int d))) = Some (int d)"
    unfolding regularMonth_def list_all_iff by blast
  then show "getFullYear P (newDate P (Some y) (Some (int mo)) (Some (int d))) = Some y"
    and "getMonth P (newDate P (Some y) (Some (int mo)) (Some (int d))) = Some (int mo)"
    and "getDate P (newDate P (Some y) (Some (int mo)) (Some (int d))) = Some (int d)"
    by simp_all
qed

lemma regularMonth_bounds:
  assumes "regularMonth P dt y mo"
  shows "startOfMonth P dt = newDate P (Some y) (Some (int mo)) (Some 1)"
    and "endOfMonth P dt = newDate P (Some y) (Some (int mo + 1)) (Some 0)"
    and "getDay P (startOfMonth P dt) = Some (int (weekDay \<lparr>year = y, month = mo, day = 1\<rparr>))"
    and "getDate P (endOfMonth P dt) = Some (int (monthLength y mo))"
    and "getFullYear P (startOfMonth P dt) = Some y"
    and "getMonth P (startOfMonth P dt) = Some (int mo)"
proof -
  from assms have fy: "getFullYear P dt = Some y" and fm: "getMonth P dt = Some (int mo)"
    and gd: "getDay P (newDate P (Some y) (Some (int mo)) (Some 1))
               = Some (int (weekDay \<lparr>year = y, month = mo, day = 1\<rparr>))"
    and gl: "getDate P (newDate P (Some y) (Some (int mo + 1)) (Some 0))
               = Some (int (monthLength y mo))"
    unfolding regularMonth_def by simp_all
  show s: "startOfMonth P dt = newDate P (Some y) (Some (int mo)) (Some 1)"
    unfolding startOfMonth_def fy fm ..
  show e: "endOfMonth P dt = newDate P (Some y) (Some (int mo + 1)) (Some 0)"
    unfolding endOfMonth_def fy fm by simp
  show "getDay P (startOfMonth P dt) = Some (int (weekDay \<lparr>year = y, month = mo, day = 1\<rparr>))"
    unfolding s by (rule gd)
  show "getDate P (endOfMonth P dt) = Some (int (monthLength y mo))"
    unfolding e by (rule gl)
  have one: "1 \<le> (1::nat)" "1 \<le> monthLength y mo"
    using monthLength_bounds [of y mo] by simp_all
  from regularMonth_day(1) [OF assms one]
  show "getFullYear P (startOfMonth P dt) = Some y" unfolding s by simp
  from regularMonth_day(2) [OF assms one]
  show "getMonth P (startOfMonth P dt) = Some (int mo)" unfolding s by simp
qed

lemma getMonthGrid_cells:
  assumes "regularMonth P dt y mo"
  shows "getMonthGrid P dt =
         rowsFrom (padWeek
           (replicate (weekDay \<lparr>year = y, month = mo, day = 1\<rparr>) None @
            map (\<lambda>d. Some (newDate P (Some y) (Some (int mo)) (Some (int d))))
              [1..<monthLength y mo + 1])) 0"
  unfolding getMonthGrid_def Let_def regularMonth_bounds(3-6) [OF assms]
  by (simp del: upt_Suc)

lemma localDay_cells:
  assumes "regularMonth P dt y mo"
  shows "map (map_option (localDay P))
           (map (\<lambda>d. Some (newDate P (Some y) (Some (int mo)) (Some (int d))))
              [1..<monthLength y mo + 1]) =
         map (\<lambda>d. Some (Some y, Some (int mo), Some (int d))) [1..<monthLength y mo + 1]"
proof -
  have "map_option (localDay P) (Some (newDate P (Some y) (Some (int mo)) (Some (int d)))) =
        Some (Some y, Some (int mo), Some (int d))"
    if "d \<in> set [1..<monthLength y mo + 1]" for d
  proof -
    from that have "1 \<le> d" "d \<le> monthLength y mo" by (simp_all del: upt_Suc)
    from regularMonth_day [OF assms this] show ?thesis by (simp add: localDay_def)
  qed
  then show ?thesis unfolding map_map comp_def by (intro map_cong [OF refl])
qed

text \<open>
  C4, for the months in which the platform returns the days it is asked for. Let the date
  \<open>dt\<close> lie in month \<open>mo\<close> of year \<open>y\<close>, a month that is regular on the platform.
  Write \<open>w\<close> for the weekday of day 1 of the month (0 for Sunday) and \<open>n\<close> for the
  length of the month. Then \<open>w\<close> is what \<open>getMonthGrid\<close> takes as the leading padding
  and \<open>n\<close> what it takes as the number of days; every row of the grid has 7 cells; there
  are \<open>(w + n + 6) div 7\<close> rows, which is the ceiling of \<open>(w + n) / 7\<close>; read row by
  row, the grid is \<open>w\<close> empty cells, then the Dates built for the days 1 to \<open>n\<close>, then
  fewer than 7 empty cells; the local calendar days of the cells that are not empty are
  the days 1 to \<open>n\<close> of the month in ascending order; and day 1 is in the first row
  under column \<open>w\<close>.
\<close>

theorem getMonthGrid_shape:
  assumes "regularMonth P dt y mo"
    and "w = weekDay \<lparr>year = y, month = mo, day = 1\<rparr>"
    and "n = monthLength y mo"
  shows "w < 7 \<and> 28 \<le> n \<and> n \<le> 31
       \<and> getDay P (startOfMonth P dt) = Some (int w)
       \<and> getDate P (endOfMonth P dt) = Some (int n)
       \<and> list_all (\<lambda>r. length r = 7) (getMonthGrid P dt)
       \<and> length (getMonthGrid P dt) = (w + n + 6) div 7
       \<and> int (length (getMonthGrid P dt)) = \<lceil>(of_nat (w + n) :: rat) / 7\<rceil>
       \<and> concat (getMonthGrid P dt) =
           replicate w None @
           map (\<lambda>d. Some (newDate P (Some y) (Some (int mo)) (Some (int d)))) [1..<n + 1] @
           replicate ((7 - (w + n) mod 7) mod 7) None
       \<and> map (map_option (localDay P)) (concat (getMonthGrid P dt)) =
           replicate w None @
           map (\<lambda>d. Some (Some y, Some (int mo), Some (int d))) [1..<n + 1] @
           replicate ((7 - (w + n) mod 7) mod 7) None
       \<and> map (map_option (localDay P)) (filter (\<lambda>c. c \<noteq> None) (concat (getMonthGrid P dt))) =
           map (\<lambda>d. Some (Some y, Some (int mo), Some (int d))) [1..<n + 1]
       \<and> getMonthGrid P dt ! 0 ! w = Some (newDate P (Some y) (Some (int mo)) (Some 1))"
proof -
  define ds where "ds = map (\<lambda>d. Some (newDate P (Some y) (Some (int mo)) (Some (int d)))) [1..<n + 1]"
  define t where "t = (7 - (w + n) mod 7) mod 7"
  define padded where "padded = replicate w None @ ds @ replicate t None"
  have w7: "w < 7" unfolding assms(2) by (rule weekDay_less)
  have n28: "28 \<le> n" "n \<le> 31" unfolding assms(3) using monthLength_bounds by simp_all
  have dlen: "length ds = n" unfolding ds_def by (simp del: upt_Suc)
  from n28 have "ds ! 0 = Some (newDate P (Some y) (Some (int mo)) (Some (int (1 + 0))))"
    unfolding ds_def by (intro nth_map_upt) simp
  then have d0: "ds ! 0 = Some (newDate P (Some y) (Some (int mo)) (Some 1))" by simp
  have len: "length (replicate w (None :: 'a option) @ ds) = w + n" by (simp add: dlen)
  have "padWeek (replicate w None @ ds) = (replicate w None @ ds) @ replicate t None"
    by (subst padWeek_eq) (simp only: len t_def)
  then have pw: "padWeek (replicate w None @ ds) = padded" by (simp add: padded_def)
  have grid: "getMonthGrid P dt = rowsFrom padded 0"
    unfolding getMonthGrid_cells [OF assms(1)] assms(2) [symmetric] assms(3) [symmetric]
      ds_def [symmetric]
    by (simp only: pw)
  have plen: "length padded = w + n + t" by (simp add: padded_def dlen)
  have pmod: "length padded mod 7 = 0" unfolding plen t_def by (rule pad_total(2))
  from rowsFrom_weeks [OF pmod, of 0]
  have rows: "concat (rowsFrom padded 0) = padded"
    "list_all (\<lambda>r. length r = 7) (rowsFrom padded 0)"
    "length (rowsFrom padded 0) = length padded div 7"
    by simp_all
  have count: "length (getMonthGrid P dt) = (w + n + 6) div 7"
    unfolding grid rows(3) plen t_def by (rule pad_total(1))
  have first: "getDay P (startOfMonth P dt) = Some (int w)"
    unfolding assms(2) by (rule regularMonth_bounds(3) [OF assms(1)])
  have last: "getDate P (endOfMonth P dt) = Some (int n)"
    unfolding assms(3) by (rule regularMonth_bounds(4) [OF assms(1)])
  from n28 have nonempty: "0 < length padded" by (simp add: plen)
  then have "rowsFrom padded 0 = take 7 (drop 0 padded) # rowsFrom padded (0 + 7)"
    by (subst rowsFrom.simps) (simp only: if_True)
  then have "rowsFrom padded 0 ! 0 = take 7 padded" by simp
  with w7 have "rowsFrom padded 0 ! 0 ! w = padded ! w" by simp
  also from n28 have "\<dots> = ds ! 0" by (simp add: padded_def nth_append dlen)
  finally have day1: "getMonthGrid P dt ! 0 ! w = Some (newDate P (Some y) (Some (int mo)) (Some 1))"
    unfolding grid d0 .
  have flat: "concat (getMonthGrid P dt) = replicate w None @ ds @ replicate t None"
    using rows(1) unfolding grid padded_def .
  have local: "map (map_option (localDay P)) ds =
      map (\<lambda>d. Some (Some y, Some (int mo), Some (int d))) [1..<n + 1]"
    unfolding ds_def assms(3) by (rule localDay_cells [OF assms(1)])
  have days: "map (map_option (localDay P)) (concat (getMonthGrid P dt)) =
      replicate w None @ map (\<lambda>d. Some (Some y, Some (int mo), Some (int d))) [1..<n + 1]
        @ replicate t None"
    unfolding flat by (simp only: map_append map_replicate local option.map)
  have "filter (\<lambda>c. c \<noteq> None) (concat (getMonthGrid P dt)) = ds"
    unfolding flat ds_def by (rule filter_padded_days)
  then have shown: "map (map_option (localDay P))
      (filter (\<lambda>c. c \<noteq> None) (concat (getMonthGrid P dt))) =
      map (\<lambda>d. Some (Some y, Some (int mo), Some (int d))) [1..<n + 1]"
    by (simp only: local)
  from w7 n28 first last rows(2) count day1 flat days shown show ?thesis
    unfolding grid [symmetric] ds_def t_def by (simp only: ceiling_sevenths simp_thms)
qed

text \<open>
  On a platform with a constant offset every month is regular, except in the years 0 to 99
  and at the two ends of the range of \<^verbatim>\<open>Date\<close>.
\<close>

lemma normDay_in_range:
  "1 \<le> d \<Longrightarrow> d \<le> int (monthLength y m) \<Longrightarrow> normDay y m d = \<lparr>year = y, month = m, day = nat d\<rparr>"
  by (subst normDay.simps) simp

lemma normDay_zero:
  "normDay y m 0 =
     \<lparr>year = (if m = 0 then y - 1 else y), month = (if m = 0 then 11 else m - 1),
      day = monthLength (if m = 0 then y - 1 else y) (if m = 0 then 11 else m - 1)\<rparr>"
proof -
  let ?y = "if m = 0 then y - 1 else y" and ?m = "if m = 0 then 11 else m - 1"
  have "normDay y m 0 = normDay ?y ?m (int (monthLength ?y ?m))"
    by (subst normDay.simps) simp
  also have "\<dots> = \<lparr>year = ?y, month = ?m, day = nat (int (monthLength ?y ?m))\<rparr>"
    using monthLength_bounds [of ?y ?m] by (intro normDay_in_range) simp_all
  finally show ?thesis by simp
qed

lemma days_before_month: "sum_list (map (monthLength y) [0..<m]) \<le> 31 * m"
proof (induction m)
  case 0
  show ?case by simp
next
  case (Suc m)
  with monthLength_bounds [of y m] show ?case by simp
qed

lemma dayFromYear_bounds:
  assumes "- 271000 \<le> y" and "y \<le> 275000"
  shows "- 99800000 \<le> dayFromYear y" and "dayFromYear y \<le> 99800000"
proof -
  define a where "a = (y - 1969) div 4"
  define b where "b = (y - 1901) div 100"
  define c where "c = (y - 1601) div 400"
  have a: "4 * a \<le> y - 1969" "y - 1969 < 4 * a + 4"
    and b: "100 * b \<le> y - 1901" "y - 1901 < 100 * b + 100"
    and c: "400 * c \<le> y - 1601" "y - 1601 < 400 * c + 400"
    unfolding a_def b_def c_def by simp_all
  have d: "dayFromYear y = 365 * y - 719050 + a - b + c"
    unfolding dayFromYear_def a_def b_def c_def by simp
  from assms a b c show "- 99800000 \<le> dayFromYear y" unfolding d by linarith
  from assms a b c show "dayFromYear y \<le> 99800000" unfolding d by linarith
qed

lemma inRange_month:
  assumes "- 271000 \<le> y" and "y \<le> 275000" and "mo < 12" and "d \<le> 31" and "\<bar>tz\<bar> \<le> 1440"
  shows "inRange tz \<lparr>year = y, month = mo, day = d\<rparr>"
proof -
  from days_before_month [of y mo] assms(3)
  have "int (sum_list (map (monthLength y) [0..<mo])) \<le> 372" by linarith
  moreover have "0 \<le> int (sum_list (map (monthLength y) [0..<mo]))" by simp
  ultimately have "\<bar>dayNumber \<lparr>year = y, month = mo, day = d\<rparr>\<bar> \<le> 99800500"
    using dayFromYear_bounds [OF assms(1,2)] assms(4) unfolding dayNumber_def by simp
  with assms(5) show ?thesis unfolding inRange_def by linarith
qed

lemma new_Date_in_month:
  assumes "m < 12" and "\<not> (0 \<le> y \<and> y \<le> 99)" and "1 \<le> d" and "d \<le> monthLength y m"
    and "- 271000 \<le> y" and "y \<le> 275000" and "\<bar>tz\<bar> \<le> 1440"
  shows "new_Date tz (Some y) (Some (int m)) (Some (int d)) = Some \<lparr>year = y, month = m, day = d\<rparr>"
proof -
  from assms(1) have "int m div 12 = 0" "nat (int m mod 12) = m" by simp_all
  moreover from assms(2) have "(if 0 \<le> y \<and> y \<le> 99 then 1900 + y else y) = y"
    by (rule if_not_P)
  moreover from assms(3,4) have "normDay y m (int d) = \<lparr>year = y, month = m, day = d\<rparr>"
    by (simp add: normDay_in_range)
  moreover from assms(4) monthLength_bounds [of y m] have "d \<le> 31" by simp
  then have "inRange tz \<lparr>year = y, month = m, day = d\<rparr>"
    by (intro inRange_month assms)
  ultimately show ?thesis by (simp only: new_Date_def Let_def option.case) simp
qed

lemma new_Date_day_zero:
  assumes "m < 12" and "\<not> (0 \<le> y \<and> y \<le> 99)"
    and "- 271000 \<le> y" and "y \<le> 275000" and "\<bar>tz\<bar> \<le> 1440"
  shows "new_Date tz (Some y) (Some (int m + 1)) (Some 0) =
         Some \<lparr>year = y, month = m, day = monthLength y m\<rparr>"
proof -
  from assms(2) have yr: "(if 0 \<le> y \<and> y \<le> 99 then 1900 + y else y) = y"
    by (rule if_not_P)
  have r: "inRange tz \<lparr>year = y, month = m, day = monthLength y m\<rparr>"
    using monthLength_bounds [of y m] by (intro inRange_month assms) simp
  show ?thesis
  proof (cases "m = 11")
    case True
    then have "(int m + 1) div 12 = 1" "nat ((int m + 1) mod 12) = 0"
      by simp_all
    moreover from True have "normDay (y + 1) 0 0 = \<lparr>year = y, month = m, day = monthLength y m\<rparr>"
      by (simp add: normDay_zero)
    ultimately show ?thesis using r by (simp only: new_Date_def Let_def option.case yr) simp
  next
    case False
    with assms(1) have lt: "m < 11" by simp
    then have "(int m + 1) div 12 = 0" "nat ((int m + 1) mod 12) = m + 1"
      by (simp_all add: nat_add_distrib)
    moreover have "normDay (y + 0) (m + 1) 0 = \<lparr>year = y, month = m, day = monthLength y m\<rparr>"
      by (simp add: normDay_zero)
    ultimately show ?thesis using r by (simp only: new_Date_def Let_def option.case yr) simp
  qed
qed

lemma fixedOffset_regularMonth:
  assumes "mo < 12" and "\<not> (0 \<le> y \<and> y \<le> 99)"
    and "- 271000 \<le> y" and "y \<le> 275000" and "\<bar>tz\<bar> \<le> 1440"
  shows "regularMonth (fixedOffset tz) (Some \<lparr>year = y, month = mo, day = d\<rparr>) y mo"
proof -
  note nd = new_Date_in_month [OF assms(1,2) _ _ assms(3-5)]
  have one: "new_Date tz (Some y) (Some (int mo)) (Some 1) = Some \<lparr>year = y, month = mo, day = 1\<rparr>"
    using nd [of 1] monthLength_bounds [of y mo] by simp
  have cells: "list_all (\<lambda>d. getFullYear (fixedOffset tz)
                       (newDate (fixedOffset tz) (Some y) (Some (int mo)) (Some (int d))) = Some y
                    \<and> getMonth (fixedOffset tz)
                       (newDate (fixedOffset tz) (Some y) (Some (int mo)) (Some (int d))) = Some (int mo)
                    \<and> getDate (fixedOffset tz)
                       (newDate (fixedOffset tz) (Some y) (Some (int mo)) (Some (int d))) = Some (int d))
         [1..<monthLength y mo + 1]"
    unfolding list_all_iff
  proof
    fix k assume "k \<in> set [1..<monthLength y mo + 1]"
    then have "1 \<le> k" "k \<le> monthLength y mo" by (simp_all del: upt_Suc)
    from nd [OF this]
    show "getFullYear (fixedOffset tz)
            (newDate (fixedOffset tz) (Some y) (Some (int mo)) (Some (int k))) = Some y
          \<and> getMonth (fixedOffset tz)
            (newDate (fixedOffset tz) (Some y) (Some (int mo)) (Some (int k))) = Some (int mo)
          \<and> getDate (fixedOffset tz)
            (newDate (fixedOffset tz) (Some y) (Some (int mo)) (Some (int k))) = Some (int k)"
      by (simp add: fixedOffset_def)
  qed
  from assms(1) one new_Date_day_zero [OF assms] cells show ?thesis
    unfolding regularMonth_def by (simp add: fixedOffset_def)
qed

text \<open>
  March 2024 begins on a Friday and has 31 days: six rows, with day 1 in the first row
  under column 5.
\<close>

theorem getMonthGrid_shape_witness:
  "regularMonth (fixedOffset 330) march2024 2024 2
   \<and> getDay (fixedOffset 330) (startOfMonth (fixedOffset 330) march2024) = Some 5
   \<and> getDate (fixedOffset 330) (endOfMonth (fixedOffset 330) march2024) = Some 31
   \<and> list_all (\<lambda>r. length r = 7) (getMonthGrid (fixedOffset 330) march2024)
   \<and> length (getMonthGrid (fixedOffset 330) march2024) = 6
   \<and> getMonthGrid (fixedOffset 330) march2024 ! 0 ! 5 =
       Some (Some \<lparr>year = 2024, month = 2, day = 1\<rparr>)"
proof -
  have r: "regularMonth (fixedOffset 330) march2024 2024 2"
    unfolding march2024_def by (rule fixedOffset_regularMonth) simp_all
  have w: "5 = weekDay \<lparr>year = 2024, month = 2, day = 1\<rparr>" by code_simp
  have n: "31 = monthLength 2024 2" by (simp add: monthLength_def)
  have d: "newDate (fixedOffset 330) (Some 2024) (Some (int 2)) (Some 1) =
           Some \<lparr>year = 2024, month = 2, day = 1\<rparr>"
    using new_Date_in_month [of 2 2024 1 330] by (simp add: fixedOffset_def monthLength_def)
  from getMonthGrid_shape [OF r w n] r show ?thesis
    unfolding d by simp
qed

text \<open>
  The claim is about every month. The constructor reads a year from 0 to 99 as 1900 to
  1999, so that for a date in such a year \<^verbatim>\<open>getMonthGrid\<close> lays out a month of the
  twentieth century. February of the year 0, a leap year, has 29 days, and the grid shows
  the 28 days of February 1900. 1 December of the year 99 is a Tuesday (weekday 2), and the
  grid begins with the three empty cells of December 1999.
\<close>

theorem getMonthGrid_shape_counterexample:
  "getFullYear (fixedOffset 0) (Some \<lparr>year = 0, month = 1, day = 1\<rparr>) = Some 0
   \<and> getMonth (fixedOffset 0) (Some \<lparr>year = 0, month = 1, day = 1\<rparr>) = Some 1
   \<and> monthLength 0 1 = 29
   \<and> map (map_option (localDay (fixedOffset 0)))
       (filter (\<lambda>c. c \<noteq> None)
          (concat (getMonthGrid (fixedOffset 0) (Some \<lparr>year = 0, month = 1, day = 1\<rparr>)))) =
     map (\<lambda>d. Some (Some 1900, Some 1, Some (int d))) [1..<29]
   \<and> getFullYear (fixedOffset 0) (Some \<lparr>year = 99, month = 11, day = 1\<rparr>) = Some 99
   \<and> getMonth (fixedOffset 0) (Some \<lparr>year = 99, month = 11, day = 1\<rparr>) = Some 11
   \<and> weekDay \<lparr>year = 99, month = 11, day = 1\<rparr> = 2
   \<and> take 4 (map (map_option (localDay (fixedOffset 0)))
       (concat (getMonthGrid (fixedOffset 0) (Some \<lparr>year = 99, month = 11, day = 1\<rparr>)))) =
     [None, None, None, Some (Some 1999, Some 11, Some 1)]"
proof -
  have a: "map (map_option (localDay (fixedOffset 0)))
       (filter (\<lambda>c. c \<noteq> None)
          (concat (getMonthGrid (fixedOffset 0) (Some \<lparr>year = 0, month = 1, day = 1\<rparr>)))) =
     map (\<lambda>d. Some (Some 1900, Some 1, Some (int d))) [1..<29]"
    by code_simp
  have b: "take 4 (map (map_option (localDay (fixedOffset 0)))
       (concat (getMonthGrid (fixedOffset 0) (Some \<lparr>year = 99, month = 11, day = 1\<rparr>)))) =
     [None, None, None, Some (Some 1999, Some 11, Some 1)]"
    by code_simp
  have c: "weekDay \<lparr>year = 99, month = 11, day = 1\<rparr> = 2" by code_simp
  have d: "monthLength 0 1 = 29" by (simp add: monthLength_def isLeap_def)
  from a b c d show ?thesis by (simp add: fixedOffset_def)
qed

section \<open>Counting the days present\<close>

lemma length_digits: "length (digits n k) = n"
  by (induction n k rule: digits.induct) simp_all

lemma isoDate_ymd:
  assumes "0 \<le> year dt" and "year dt \<le> 9999"
  shows "take 10 (isoDate dt) = ymdOf dt"
proof -
  from assms have "isoDate dt = ymdOf dt" by (simp add: isoDate_def isoYear_def ymdOf_def)
  moreover have "length (ymdOf dt) = 10" by (simp add: ymdOf_def length_digits)
  ultimately show ?thesis by simp
qed

lemma toYMD_fixedOffset:
  assumes "0 \<le> year (utcDate tz dt)" and "year (utcDate tz dt) \<le> 9999"
  shows "toYMD (fixedOffset tz) (Some dt) = Some (ymdOf (utcDate tz dt))"
proof -
  have "length (ymdOf (utcDate tz dt)) = 10" by (simp add: ymdOf_def length_digits)
  moreover from assms have "isoDate (utcDate tz dt) = ymdOf (utcDate tz dt)"
    by (simp add: isoDate_def isoYear_def ymdOf_def)
  ultimately have "take 10 (isoString tz dt) = ymdOf (utcDate tz dt)"
    unfolding isoString_def by simp
  then show ?thesis by (simp add: toYMD_def fixedOffset_def)
qed

lemma utcDate_at_or_west:
  assumes "- 1440 < tz" and "tz \<le> 0"
    and "1 \<le> day dt" and "day dt \<le> monthLength (year dt) (month dt)"
  shows "utcDate tz dt = dt"
proof -
  from assms(1,2) have "(- tz) div 1440 = 0" by simp
  then have "utcDate tz dt = normDay (year dt) (month dt) (int (day dt))"
    by (simp add: utcDate_def)
  also from assms(3,4) have "\<dots> = \<lparr>year = year dt, month = month dt, day = nat (int (day dt))\<rparr>"
    by (intro normDay_in_range) simp_all
  finally show ?thesis by simp
qed

lemma utcDate_east:
  assumes "0 < tz" and "tz \<le> 1440"
  shows "utcDate tz dt = normDay (year dt) (month dt) (int (day dt) - 1)"
proof -
  from assms have "(- tz) div 1440 = - 1"
    by (intro int_div_pos_eq [of "- tz" 1440 "- 1" "1440 - tz"]) simp_all
  then show ?thesis by (simp add: utcDate_def)
qed

lemma fixedOffset_bounds:
  assumes "mo < 12" and "100 \<le> y" and "y \<le> 9999" and "\<bar>tz\<bar> \<le> 1440"
  shows "startOfMonth (fixedOffset tz) (Some \<lparr>year = y, month = mo, day = d\<rparr>) =
         Some \<lparr>year = y, month = mo, day = 1\<rparr>"
    and "endOfMonth (fixedOffset tz) (Some \<lparr>year = y, month = mo, day = d\<rparr>) =
         Some \<lparr>year = y, month = mo, day = monthLength y mo\<rparr>"
proof -
  from assms(2,3) have y: "\<not> (0 \<le> y \<and> y \<le> 99)" "- 271000 \<le> y" "y \<le> 275000" by simp_all
  have "new_Date tz (Some y) (Some (int mo)) (Some (int 1)) = Some \<lparr>year = y, month = mo, day = 1\<rparr>"
    using monthLength_bounds [of y mo] by (intro new_Date_in_month assms(1,4) y) simp_all
  then show "startOfMonth (fixedOffset tz) (Some \<lparr>year = y, month = mo, day = d\<rparr>) =
         Some \<lparr>year = y, month = mo, day = 1\<rparr>"
    by (simp add: startOfMonth_def fixedOffset_def)
  from new_Date_day_zero [OF assms(1) y assms(4)]
  show "endOfMonth (fixedOffset tz) (Some \<lparr>year = y, month = mo, day = d\<rparr>) =
         Some \<lparr>year = y, month = mo, day = monthLength y mo\<rparr>"
    by (simp add: endOfMonth_def fixedOffset_def)
qed

text \<open>
  In a zone at or west of Greenwich local midnight is on the same UTC day, \<open>toYMD\<close>
  prints the date itself, and \<open>daysPresentFor\<close> counts what the specification says
  (\<open>daysPresentFor_at_or_west\<close>).
\<close>

lemma toYMD_at_or_west:
  assumes "- 1440 < tz" and "tz \<le> 0"
    and "1 \<le> day dt" and "day dt \<le> monthLength (year dt) (month dt)"
    and "0 \<le> year dt" and "year dt \<le> 9999"
  shows "toYMD (fixedOffset tz) (Some dt) = Some (ymdOf dt)"
  using toYMD_fixedOffset [of tz dt] assms(5,6) unfolding utcDate_at_or_west [OF assms(1-4)]
  by simp

lemma daysPresentFor_at_or_west:
  assumes "- 1440 < tz" and "tz \<le> 0"
    and "mo < 12" and "100 \<le> y" and "y \<le> 9999"
  shows "daysPresentFor (fixedOffset tz) data lid (Some \<lparr>year = y, month = mo, day = d\<rparr>) =
         Some (daysPresent_spec data lid y mo)"
proof -
  from assms(1,2) have tz: "\<bar>tz\<bar> \<le> 1440" by simp
  note b = fixedOffset_bounds [OF assms(3-5) tz, of d]
  have s: "toYMD (fixedOffset tz) (Some \<lparr>year = y, month = mo, day = 1\<rparr>) =
        Some (ymdOf \<lparr>year = y, month = mo, day = 1\<rparr>)"
    using assms(4,5) monthLength_bounds [of y mo]
    by (intro toYMD_at_or_west [OF assms(1,2)]) simp_all
  have e: "toYMD (fixedOffset tz) (Some \<lparr>year = y, month = mo, day = monthLength y mo\<rparr>) =
        Some (ymdOf \<lparr>year = y, month = mo, day = monthLength y mo\<rparr>)"
    using assms(4,5) monthLength_bounds [of y mo]
    by (intro toYMD_at_or_west [OF assms(1,2)]) simp_all
  show ?thesis
    unfolding daysPresentFor_def daysPresent_spec_def Let_def b s e option.case
    by (simp only: conj_ac)
qed

text \<open>
  East of Greenwich, up to a day ahead, the two bounds are the day before the first and the
  day before the last day of the month.
\<close>

lemma toYMD_east:
  assumes "0 < tz" and "tz \<le> 1440"
    and "mo < 12" and "100 \<le> y" and "y \<le> 9999"
  shows "toYMD (fixedOffset tz) (Some \<lparr>year = y, month = mo, day = 1\<rparr>) =
         Some (ymdOf (normDay y mo 0))"
    and "toYMD (fixedOffset tz) (Some \<lparr>year = y, month = mo, day = monthLength y mo\<rparr>) =
         Some (ymdOf \<lparr>year = y, month = mo, day = monthLength y mo - 1\<rparr>)"
proof -
  have u: "utcDate tz \<lparr>year = y, month = mo, day = 1\<rparr> = normDay y mo 0"
    unfolding utcDate_east [OF assms(1,2)] by simp
  from assms(4,5) have "0 \<le> year (normDay y mo 0)" and "year (normDay y mo 0) \<le> 9999"
    by (simp_all add: normDay_zero)
  then show "toYMD (fixedOffset tz) (Some \<lparr>year = y, month = mo, day = 1\<rparr>) =
         Some (ymdOf (normDay y mo 0))"
    using toYMD_fixedOffset [of tz "\<lparr>year = y, month = mo, day = 1\<rparr>"] unfolding u by simp
  let ?n = "monthLength y mo"
  have "utcDate tz \<lparr>year = y, month = mo, day = ?n\<rparr> = normDay y mo (int ?n - 1)"
    unfolding utcDate_east [OF assms(1,2)] by simp
  also have "\<dots> = \<lparr>year = y, month = mo, day = nat (int ?n - 1)\<rparr>"
    using monthLength_bounds [of y mo] by (intro normDay_in_range) simp_all
  also have "nat (int ?n - 1) = ?n - 1" by simp
  finally have v: "utcDate tz \<lparr>year = y, month = mo, day = ?n\<rparr> =
      \<lparr>year = y, month = mo, day = ?n - 1\<rparr>" .
  from assms(4,5)
  show "toYMD (fixedOffset tz) (Some \<lparr>year = y, month = mo, day = ?n\<rparr>) =
         Some (ymdOf \<lparr>year = y, month = mo, day = ?n - 1\<rparr>)"
    using toYMD_fixedOffset [of tz "\<lparr>year = y, month = mo, day = ?n\<rparr>"] unfolding v by simp
qed

lemma daysPresentFor_east:
  assumes "0 < tz" and "tz \<le> 1440"
    and "mo < 12" and "100 \<le> y" and "y \<le> 9999"
  shows "daysPresentFor (fixedOffset tz) data lid (Some \<lparr>year = y, month = mo, day = d\<rparr>) =
         Some (length (filter (\<lambda>a. labourId a = lid
                   \<and> ymdOf (normDay y mo 0) \<le> date a
                   \<and> date a \<le> ymdOf \<lparr>year = y, month = mo, day = monthLength y mo - 1\<rparr>
                   \<and> present a)
                 (attendance data)))"
proof -
  from assms(1,2) have tz: "\<bar>tz\<bar> \<le> 1440" by simp
  show ?thesis
    unfolding daysPresentFor_def Let_def fixedOffset_bounds [OF assms(3-5) tz]
      toYMD_east [OF assms] option.case ..
qed

lemma march2024_bounds:
  assumes "\<bar>tz\<bar> \<le> 1440"
  shows "startOfMonth (fixedOffset tz) march2024 = Some \<lparr>year = 2024, month = 2, day = 1\<rparr>"
    and "endOfMonth (fixedOffset tz) march2024 = Some \<lparr>year = 2024, month = 2, day = 31\<rparr>"
  using fixedOffset_bounds [of 2 2024 tz 1] assms
  by (simp_all add: march2024_def monthLength_def)

lemma march2024_ymd:
  "toYMD (fixedOffset 330) (startOfMonth (fixedOffset 330) march2024) = Some ''2024-02-29''"
  "toYMD (fixedOffset 330) (endOfMonth (fixedOffset 330) march2024) = Some ''2024-03-30''"
  "toYMD (fixedOffset 0) (startOfMonth (fixedOffset 0) march2024) = Some ''2024-03-01''"
  "toYMD (fixedOffset 0) (endOfMonth (fixedOffset 0) march2024) = Some ''2024-03-31''"
  "ymdOf \<lparr>year = 2024, month = 2, day = 1\<rparr> = ''2024-03-01''"
  "ymdOf \<lparr>year = 2024, month = 2, day = monthLength 2024 2\<rparr> = ''2024-03-31''"
  by code_simp+

text \<open>
  C2. East of Greenwich \<open>toISOString\<close> prints the day before: with the clock of
  India, 330 minutes ahead of UTC, the bounds for March 2024 are \<open>2024-02-29\<close> and
  \<open>2024-03-30\<close>. A record of Suresh dated \<open>2024-03-31\<close> and marked present lies in
  March and is not counted; a record dated \<open>2024-02-29\<close> lies outside March and is
  counted.
\<close>

theorem daysPresentFor_east_of_utc:
  "toYMD (fixedOffset 330) (startOfMonth (fixedOffset 330) march2024) = Some ''2024-02-29''
   \<and> toYMD (fixedOffset 330) (endOfMonth (fixedOffset 330) march2024) = Some ''2024-03-30''
   \<and> daysPresentFor (fixedOffset 330) lastDayDoc ''lab_s'' march2024 = Some 0
   \<and> daysPresent_spec lastDayDoc ''lab_s'' 2024 2 = 1
   \<and> daysPresentFor (fixedOffset 330) leapDayDoc ''lab_s'' march2024 = Some 1
   \<and> daysPresent_spec leapDayDoc ''lab_s'' 2024 2 = 0"
proof -
  have "daysPresentFor (fixedOffset 330) lastDayDoc ''lab_s'' march2024 = Some 0"
    unfolding daysPresentFor_def Let_def march2024_ymd lastDayDoc_def by code_simp
  moreover have "daysPresent_spec lastDayDoc ''lab_s'' 2024 2 = 1"
    unfolding daysPresent_spec_def march2024_ymd lastDayDoc_def by code_simp
  moreover have "daysPresentFor (fixedOffset 330) leapDayDoc ''lab_s'' march2024 = Some 1"
    unfolding daysPresentFor_def Let_def march2024_ymd leapDayDoc_def by code_simp
  moreover have "daysPresent_spec leapDayDoc ''lab_s'' 2024 2 = 0"
    unfolding daysPresent_spec_def march2024_ymd leapDayDoc_def by code_simp
  ultimately show ?thesis by (simp only: march2024_ymd simp_thms)
qed

section \<open>Monthly totals\<close>

text \<open>Below \<open>2^53\<close> the arithmetic of whole doubles is that of the integers.\<close>

lemma roundToDouble_exact: "\<bar>x\<bar> < 2 ^ 53 \<Longrightarrow> roundToDouble x = Whole x"
  by (simp add: roundToDouble_def)

lemma plus_double_exact: "\<bar>a + b\<bar> < 2 ^ 53 \<Longrightarrow> plus_double (Whole a) (Whole b) = Whole (a + b)"
  by (simp add: roundToDouble_exact)

lemma wholeBucket_fields:
  assumes "wholeBucket b"
  obtains x u v where "days b = Whole x" and "amount b = Whole u" and "labourCount b = Whole v"
    and "0 \<le> x" and "0 \<le> v"
proof -
  from assms obtain x where x: "days b = Whole x" "0 \<le> x"
    by (cases "days b") (simp_all add: wholeBucket_def)
  from assms obtain u where u: "amount b = Whole u"
    by (cases "amount b") (simp_all add: wholeBucket_def)
  from assms obtain v where v: "labourCount b = Whole v" "0 \<le> v"
    by (cases "labourCount b") (simp_all add: wholeBucket_def)
  from x u v that show thesis by blast
qed

lemma totals_nonneg:
  assumes "list_all (\<lambda>kv. wholeBucket (snd kv)) bc"
  shows "0 \<le> dayTotal bc" and "0 \<le> headTotal bc" and "0 \<le> amountWeight bc"
proof -
  from assms have "0 \<le> valueOf (days (snd kv))" "0 \<le> valueOf (labourCount (snd kv))"
    if "kv \<in> set bc" for kv
    using that by (simp_all add: list_all_iff wholeBucket_def)
  then show "0 \<le> dayTotal bc" and "0 \<le> headTotal bc"
    unfolding dayTotal_def headTotal_def by (auto intro!: sum_list_nonneg)
  show "0 \<le> amountWeight bc" unfolding amountWeight_def by (auto intro!: sum_list_nonneg)
qed

lemma totals_Cons:
  "dayTotal ((k, b) # bc) = valueOf (days b) + dayTotal bc"
  "amountTotal ((k, b) # bc) = valueOf (amount b) + amountTotal bc"
  "headTotal ((k, b) # bc) = valueOf (labourCount b) + headTotal bc"
  "amountWeight ((k, b) # bc) = \<bar>valueOf (amount b)\<bar> + amountWeight bc"
  by (simp_all add: dayTotal_def amountTotal_def headTotal_def amountWeight_def)

lemma totals_Nil: "dayTotal [] = 0" "amountTotal [] = 0" "headTotal [] = 0" "amountWeight [] = 0"
  by (simp_all add: dayTotal_def amountTotal_def headTotal_def amountWeight_def)

text \<open>
  One labourer added to buckets of whole numbers, the totals staying below \<open>2^53\<close>: the
  buckets remain whole and their totals grow by the labourer's days, amount and head.
\<close>

lemma addTo_exact:
  assumes "list_all (\<lambda>kv. wholeBucket (snd kv)) bc" and "0 \<le> d"
    and "dayTotal bc + d < 2 ^ 53" and "amountWeight bc + \<bar>a\<bar> < 2 ^ 53"
    and "headTotal bc + 1 < 2 ^ 53"
  shows "list_all (\<lambda>kv. wholeBucket (snd kv)) (addTo key (Whole d) (Whole a) bc)
       \<and> dayTotal (addTo key (Whole d) (Whole a) bc) = dayTotal bc + d
       \<and> amountTotal (addTo key (Whole d) (Whole a) bc) = amountTotal bc + a
       \<and> headTotal (addTo key (Whole d) (Whole a) bc) = headTotal bc + 1
       \<and> amountWeight (addTo key (Whole d) (Whole a) bc) \<le> amountWeight bc + \<bar>a\<bar>"
  using assms
proof (induction bc)
  case Nil
  then have "\<bar>0 + d\<bar> < 2 ^ 53" "\<bar>0 + a\<bar> < 2 ^ 53" "\<bar>0 + (1::int)\<bar> < 2 ^ 53"
    by (simp_all add: totals_Nil)
  then have "plus_double (Whole 0) (Whole d) = Whole d" "plus_double (Whole 0) (Whole a) = Whole a"
    "plus_double (Whole 0) (Whole 1) = Whole 1"
    using plus_double_exact [of 0 d] plus_double_exact [of 0 a] plus_double_exact [of 0 1]
    by simp_all
  with Nil.prems(2) show ?case
    by (simp add: totals_Nil totals_Cons wholeBucket_def)
next
  case (Cons kb bc)
  obtain k b where kb: "kb = (k, b)" by (cases kb)
  from Cons.prems(1) have wb: "wholeBucket b" and wr: "list_all (\<lambda>kv. wholeBucket (snd kv)) bc"
    by (simp_all add: kb)
  from wb obtain x u v where f: "days b = Whole x" "amount b = Whole u" "labourCount b = Whole v"
    "0 \<le> x" "0 \<le> v"
    by (rule wholeBucket_fields)
  note nn = totals_nonneg [OF wr]
  from Cons.prems(3-5) have bd: "x + dayTotal bc + d < 2 ^ 53"
    "\<bar>u\<bar> + amountWeight bc + \<bar>a\<bar> < 2 ^ 53" "v + headTotal bc + 1 < 2 ^ 53"
    by (simp_all add: kb totals_Cons f)
  show ?case
  proof (cases "k = key")
    case True
    from bd nn f(4,5) Cons.prems(2) have "\<bar>x + d\<bar> < 2 ^ 53" "\<bar>u + a\<bar> < 2 ^ 53" "\<bar>v + 1\<bar> < 2 ^ 53"
      by linarith+
    then have p: "roundToDouble (x + d) = Whole (x + d)"
      "roundToDouble (u + a) = Whole (u + a)"
      "roundToDouble (v + 1) = Whole (v + 1)"
      by (simp_all only: roundToDouble_exact)
    have "\<bar>u + a\<bar> \<le> \<bar>u\<bar> + \<bar>a\<bar>" by (rule abs_triangle_ineq)
    with True wr f Cons.prems(2) show ?thesis
      by (simp add: kb p totals_Cons wholeBucket_def)
  next
    case False
    from bd nn f(4,5) have "dayTotal bc + d < 2 ^ 53" "amountWeight bc + \<bar>a\<bar> < 2 ^ 53"
      "headTotal bc + 1 < 2 ^ 53"
      by linarith+
    from Cons.IH [OF wr Cons.prems(2) this] False wb show ?thesis
      by (simp add: kb totals_Cons)
  qed
qed

lemma daysPresentFor_Some:
  assumes "toYMD P (startOfMonth P m) \<noteq> None" and "toYMD P (endOfMonth P m) \<noteq> None"
  shows "\<exists>n. daysPresentFor P data lid m = Some n"
proof -
  from assms obtain a b where "toYMD P (startOfMonth P m) = Some a"
    "toYMD P (endOfMonth P m) = Some b" by blast
  then show ?thesis by (simp add: daysPresentFor_def Let_def)
qed

lemma daysOf_nonneg: "0 \<le> daysOf P data m l"
  by (simp add: daysOf_def split: option.split)

text \<open>
  The loop over the labourers, from buckets of whole numbers on: it ends without an
  exception, the buckets stay whole, and their totals grow by the days, amounts and heads
  of the labourers whose contractor id is not the name of an inherited property.
\<close>

lemma totals_loop:
  assumes ok: "\<And>lid. \<exists>n. daysPresentFor P data lid m = Some n"
    and "list_all (\<lambda>kv. wholeBucket (snd kv)) bc"
    and "dayTotal bc + (\<Sum>l\<leftarrow>ls. daysOf P data m l) < 2 ^ 53"
    and "amountWeight bc + (\<Sum>l\<leftarrow>ls. \<bar>owed P data m l\<bar>) < 2 ^ 53"
    and "headTotal bc + int (length ls) < 2 ^ 53"
  shows "\<exists>bc'. forEach (totalsStep P data m) bc ls = Some bc'
           \<and> list_all (\<lambda>kv. wholeBucket (snd kv)) bc'
           \<and> dayTotal bc' = dayTotal bc +
               (\<Sum>l\<leftarrow>filter (\<lambda>l. contractorId l \<notin> set objectPrototypeKeys) ls. daysOf P data m l)
           \<and> amountTotal bc' = amountTotal bc +
               (\<Sum>l\<leftarrow>filter (\<lambda>l. contractorId l \<notin> set objectPrototypeKeys) ls. owed P data m l)
           \<and> headTotal bc' = headTotal bc +
               int (length (filter (\<lambda>l. contractorId l \<notin> set objectPrototypeKeys) ls))
           \<and> dayTotal bc' \<le> dayTotal bc + (\<Sum>l\<leftarrow>ls. daysOf P data m l)
           \<and> amountWeight bc' \<le> amountWeight bc + (\<Sum>l\<leftarrow>ls. \<bar>owed P data m l\<bar>)
           \<and> headTotal bc' \<le> headTotal bc + int (length ls)"
  using assms(2-5)
proof (induction ls arbitrary: bc)
  case Nil
  then show ?case by simp
next
  case (Cons l ls)
  from ok [of "id_l l"] obtain n where n: "daysPresentFor P data (id_l l) m = Some n" ..
  then have d: "daysOf P data m l = int n" and o: "owed P data m l = int n * dailyRate l"
    by (simp_all add: daysOf_def owed_def)
  have rest: "0 \<le> (\<Sum>l\<leftarrow>ls. daysOf P data m l)" "0 \<le> (\<Sum>l\<leftarrow>ls. \<bar>owed P data m l\<bar>)"
    by (auto intro!: sum_list_nonneg simp: daysOf_nonneg)
  note nn = totals_nonneg [OF Cons.prems(1)]
  from Cons.prems(2-4) have bd: "dayTotal bc + int n + (\<Sum>l\<leftarrow>ls. daysOf P data m l) < 2 ^ 53"
    "amountWeight bc + \<bar>int n * dailyRate l\<bar> + (\<Sum>l\<leftarrow>ls. \<bar>owed P data m l\<bar>) < 2 ^ 53"
    "headTotal bc + 1 + int (length ls) < 2 ^ 53"
    by (simp_all add: d o)
  show ?case
  proof (cases "contractorId l \<in> set objectPrototypeKeys")
    case True
    with n have step: "totalsStep P data m bc l = Some bc"
      by (simp add: totalsStep_def Let_def)
    from bd rest have "dayTotal bc + (\<Sum>l\<leftarrow>ls. daysOf P data m l) < 2 ^ 53"
      "amountWeight bc + (\<Sum>l\<leftarrow>ls. \<bar>owed P data m l\<bar>) < 2 ^ 53"
      "headTotal bc + int (length ls) < 2 ^ 53"
      by linarith+
    from Cons.IH [OF Cons.prems(1) this] obtain bc' where r:
      "forEach (totalsStep P data m) bc ls = Some bc'"
      "list_all (\<lambda>kv. wholeBucket (snd kv)) bc'"
      "dayTotal bc' = dayTotal bc +
         (\<Sum>l\<leftarrow>filter (\<lambda>l. contractorId l \<notin> set objectPrototypeKeys) ls. daysOf P data m l)"
      "amountTotal bc' = amountTotal bc +
         (\<Sum>l\<leftarrow>filter (\<lambda>l. contractorId l \<notin> set objectPrototypeKeys) ls. owed P data m l)"
      "headTotal bc' = headTotal bc +
         int (length (filter (\<lambda>l. contractorId l \<notin> set objectPrototypeKeys) ls))"
      "dayTotal bc' \<le> dayTotal bc + (\<Sum>l\<leftarrow>ls. daysOf P data m l)"
      "amountWeight bc' \<le> amountWeight bc + (\<Sum>l\<leftarrow>ls. \<bar>owed P data m l\<bar>)"
      "headTotal bc' \<le> headTotal bc + int (length ls)"
      by blast
    have "0 \<le> \<bar>int n * dailyRate l\<bar>" by simp
    with r(6-8) have le: "dayTotal bc' \<le> dayTotal bc + int n + (\<Sum>l\<leftarrow>ls. daysOf P data m l)"
      "amountWeight bc' \<le> amountWeight bc + \<bar>int n * dailyRate l\<bar> + (\<Sum>l\<leftarrow>ls. \<bar>owed P data m l\<bar>)"
      "headTotal bc' \<le> headTotal bc + 1 + int (length ls)"
      by linarith+
    have "forEach (totalsStep P data m) bc (l # ls) = Some bc'"
      by (simp add: step r(1))
    moreover from True have
      "filter (\<lambda>l. contractorId l \<notin> set objectPrototypeKeys) (l # ls) =
       filter (\<lambda>l. contractorId l \<notin> set objectPrototypeKeys) ls"
      by simp
    moreover have "(\<Sum>l\<leftarrow>l # ls. daysOf P data m l) = int n + (\<Sum>l\<leftarrow>ls. daysOf P data m l)"
      "(\<Sum>l\<leftarrow>l # ls. \<bar>owed P data m l\<bar>) = \<bar>int n * dailyRate l\<bar> + (\<Sum>l\<leftarrow>ls. \<bar>owed P data m l\<bar>)"
      "int (length (l # ls)) = 1 + int (length ls)"
      by (simp_all add: d o)
    ultimately show ?thesis using r(2-5) le
      by (intro exI [of _ bc']) (simp only: add.assoc simp_thms)
  next
    case False
    from bd rest nn have small: "\<bar>int n * dailyRate l\<bar> < 2 ^ 53" by linarith
    let ?bc = "addTo (contractorId l) (Whole (int n)) (Whole (int n * dailyRate l)) bc"
    from False n small have step: "totalsStep P data m bc l = Some ?bc"
      by (simp add: totalsStep_def Let_def roundToDouble_exact)
    from bd rest have "dayTotal bc + int n < 2 ^ 53"
      "amountWeight bc + \<bar>int n * dailyRate l\<bar> < 2 ^ 53" "headTotal bc + 1 < 2 ^ 53"
      by linarith+
    from addTo_exact [OF Cons.prems(1) _ this, of "contractorId l"]
    have a: "list_all (\<lambda>kv. wholeBucket (snd kv)) ?bc"
      "dayTotal ?bc = dayTotal bc + int n"
      "amountTotal ?bc = amountTotal bc + int n * dailyRate l"
      "headTotal ?bc = headTotal bc + 1"
      "amountWeight ?bc \<le> amountWeight bc + \<bar>int n * dailyRate l\<bar>"
      by simp_all
    from bd a have "dayTotal ?bc + (\<Sum>l\<leftarrow>ls. daysOf P data m l) < 2 ^ 53"
      "amountWeight ?bc + (\<Sum>l\<leftarrow>ls. \<bar>owed P data m l\<bar>) < 2 ^ 53"
      "headTotal ?bc + int (length ls) < 2 ^ 53"
      by linarith+
    from Cons.IH [OF a(1) this] obtain bc' where r:
      "forEach (totalsStep P data m) ?bc ls = Some bc'"
      "list_all (\<lambda>kv. wholeBucket (snd kv)) bc'"
      "dayTotal bc' = dayTotal ?bc +
         (\<Sum>l\<leftarrow>filter (\<lambda>l. contractorId l \<notin> set objectPrototypeKeys) ls. daysOf P data m l)"
      "amountTotal bc' = amountTotal ?bc +
         (\<Sum>l\<leftarrow>filter (\<lambda>l. contractorId l \<notin> set objectPrototypeKeys) ls. owed P data m l)"
      "headTotal bc' = headTotal ?bc +
         int (length (filter (\<lambda>l. contractorId l \<notin> set objectPrototypeKeys) ls))"
      "dayTotal bc' \<le> dayTotal ?bc + (\<Sum>l\<leftarrow>ls. daysOf P data m l)"
      "amountWeight bc' \<le> amountWeight ?bc + (\<Sum>l\<leftarrow>ls. \<bar>owed P data m l\<bar>)"
      "headTotal bc' \<le> headTotal ?bc + int (length ls)"
      by blast
    from r(6-8) a(5) have le: "dayTotal bc' \<le> dayTotal bc + int n + (\<Sum>l\<leftarrow>ls. daysOf P data m l)"
      "amountWeight bc' \<le> amountWeight bc + \<bar>int n * dailyRate l\<bar> + (\<Sum>l\<leftarrow>ls. \<bar>owed P data m l\<bar>)"
      "headTotal bc' \<le> headTotal bc + 1 + int (length ls)"
      unfolding a(2,4) by linarith+
    have "forEach (totalsStep P data m) bc (l # ls) = Some bc'"
      by (simp add: step r(1))
    moreover from False have
      "(\<Sum>l\<leftarrow>filter (\<lambda>l. contractorId l \<notin> set objectPrototypeKeys) (l # ls). daysOf P data m l) =
         int n + (\<Sum>l\<leftarrow>filter (\<lambda>l. contractorId l \<notin> set objectPrototypeKeys) ls. daysOf P data m l)"
      "(\<Sum>l\<leftarrow>filter (\<lambda>l. contractorId l \<notin> set objectPrototypeKeys) (l # ls). owed P data m l) =
         int n * dailyRate l +
         (\<Sum>l\<leftarrow>filter (\<lambda>l. contractorId l \<notin> set objectPrototypeKeys) ls. owed P data m l)"
      "int (length (filter (\<lambda>l. contractorId l \<notin> set objectPrototypeKeys) (l # ls))) =
         1 + int (length (filter (\<lambda>l. contractorId l \<notin> set objectPrototypeKeys) ls))"
      by (simp_all add: d o)
    moreover have "(\<Sum>l\<leftarrow>l # ls. daysOf P data m l) = int n + (\<Sum>l\<leftarrow>ls. daysOf P data m l)"
      "(\<Sum>l\<leftarrow>l # ls. \<bar>owed P data m l\<bar>) = \<bar>int n * dailyRate l\<bar> + (\<Sum>l\<leftarrow>ls. \<bar>owed P data m l\<bar>)"
      "int (length (l # ls)) = 1 + int (length ls)"
      by (simp_all add: d o)
    ultimately show ?thesis using r(2-5) le unfolding a(2-4)
      by (intro exI [of _ bc']) (simp only: add.assoc simp_thms)
  qed
qed

text \<open>
  The fold over the values of the object. \<^verbatim>\<open>Object.values\<close> permutes the buckets, which
  leaves their totals as they are, and below \<open>2^53\<close> the fold adds them exactly.
\<close>

lemma sum_list_insort_key:
  fixes g :: "'a \<Rightarrow> int"
  shows "sum_list (map g (insort_key k x xs)) = g x + sum_list (map g xs)"
  by (induction xs) simp_all

lemma sum_list_sort_key:
  fixes g :: "'a \<Rightarrow> int"
  shows "sum_list (map g (sort_key k xs)) = sum_list (map g xs)"
  by (induction xs) (simp_all add: sum_list_insort_key)

lemma sum_list_partition:
  fixes g :: "'a \<Rightarrow> int"
  shows "sum_list (map g (filter Q xs)) + sum_list (map g (filter (\<lambda>x. \<not> Q x) xs)) =
         sum_list (map g xs)"
  by (induction xs) simp_all

lemma sum_list_objectValues:
  fixes g :: "'v \<Rightarrow> int"
  shows "sum_list (map g (objectValues obj)) = (\<Sum>kv\<leftarrow>obj. g (snd kv))"
proof -
  have "sum_list (map g (objectValues obj)) =
      sum_list (map (\<lambda>kv. g (snd kv)) (filter (\<lambda>kv. isArrayIndex (fst kv)) obj)) +
      sum_list (map (\<lambda>kv. g (snd kv)) (filter (\<lambda>kv. \<not> isArrayIndex (fst kv)) obj))"
    unfolding objectValues_def by (simp add: comp_def sum_list_sort_key)
  then show ?thesis by (simp only: sum_list_partition)
qed

lemma list_all_objectValues:
  assumes "list_all (\<lambda>kv. Q (snd kv)) obj"
  shows "list_all Q (objectValues obj)"
  using assms unfolding objectValues_def list_all_iff by auto

lemma foldl_addBucket_exact:
  assumes "list_all wholeBucket vs" and "wholeBucket acc"
    and "valueOf (days acc) + (\<Sum>v\<leftarrow>vs. valueOf (days v)) < 2 ^ 53"
    and "\<bar>valueOf (amount acc)\<bar> + (\<Sum>v\<leftarrow>vs. \<bar>valueOf (amount v)\<bar>) < 2 ^ 53"
    and "valueOf (labourCount acc) + (\<Sum>v\<leftarrow>vs. valueOf (labourCount v)) < 2 ^ 53"
  shows "foldl addBucket acc vs =
         \<lparr>days = Whole (valueOf (days acc) + (\<Sum>v\<leftarrow>vs. valueOf (days v))),
          amount = Whole (valueOf (amount acc) + (\<Sum>v\<leftarrow>vs. valueOf (amount v))),
          labourCount = Whole (valueOf (labourCount acc) + (\<Sum>v\<leftarrow>vs. valueOf (labourCount v)))\<rparr>"
  using assms
proof (induction vs arbitrary: acc)
  case Nil
  from Nil.prems(2) obtain x u v where "days acc = Whole x" "amount acc = Whole u"
    "labourCount acc = Whole v"
    by (rule wholeBucket_fields)
  then show ?case by simp
next
  case (Cons b vs)
  from Cons.prems(1) have wb: "wholeBucket b" and wr: "list_all wholeBucket vs" by simp_all
  from Cons.prems(2) obtain x u v where f: "days acc = Whole x" "amount acc = Whole u"
    "labourCount acc = Whole v" "0 \<le> x" "0 \<le> v"
    by (rule wholeBucket_fields)
  from wb obtain x' u' v' where g: "days b = Whole x'" "amount b = Whole u'"
    "labourCount b = Whole v'" "0 \<le> x'" "0 \<le> v'"
    by (rule wholeBucket_fields)
  from wr have "0 \<le> valueOf (days c)" "0 \<le> valueOf (labourCount c)" if "c \<in> set vs" for c
    using that by (simp_all add: list_all_iff wholeBucket_def)
  then have nn: "0 \<le> (\<Sum>v\<leftarrow>vs. valueOf (days v))" "0 \<le> (\<Sum>v\<leftarrow>vs. valueOf (labourCount v))"
    "0 \<le> (\<Sum>v\<leftarrow>vs. \<bar>valueOf (amount v)\<bar>)"
    by (auto intro!: sum_list_nonneg)
  from Cons.prems(3-5) have bd: "x + x' + (\<Sum>v\<leftarrow>vs. valueOf (days v)) < 2 ^ 53"
    "\<bar>u\<bar> + \<bar>u'\<bar> + (\<Sum>v\<leftarrow>vs. \<bar>valueOf (amount v)\<bar>) < 2 ^ 53"
    "v + v' + (\<Sum>v\<leftarrow>vs. valueOf (labourCount v)) < 2 ^ 53"
    by (simp_all add: f g)
  have tri: "\<bar>u + u'\<bar> \<le> \<bar>u\<bar> + \<bar>u'\<bar>" by (rule abs_triangle_ineq)
  from bd nn f(4,5) g(4,5) tri have "\<bar>x + x'\<bar> < 2 ^ 53" "\<bar>u + u'\<bar> < 2 ^ 53" "\<bar>v + v'\<bar> < 2 ^ 53"
    by linarith+
  then have p: "roundToDouble (x + x') = Whole (x + x')"
    "roundToDouble (u + u') = Whole (u + u')"
    "roundToDouble (v + v') = Whole (v + v')"
    by (simp_all only: roundToDouble_exact)
  let ?acc = "\<lparr>days = Whole (x + x'), amount = Whole (u + u'), labourCount = Whole (v + v')\<rparr>"
  have step: "addBucket acc b = ?acc" by (simp add: addBucket_def f g p)
  from f(4,5) g(4,5) have w: "wholeBucket ?acc" by (simp add: wholeBucket_def)
  from bd tri have "valueOf (days ?acc) + (\<Sum>v\<leftarrow>vs. valueOf (days v)) < 2 ^ 53"
    "\<bar>valueOf (amount ?acc)\<bar> + (\<Sum>v\<leftarrow>vs. \<bar>valueOf (amount v)\<bar>) < 2 ^ 53"
    "valueOf (labourCount ?acc) + (\<Sum>v\<leftarrow>vs. valueOf (labourCount v)) < 2 ^ 53"
    by simp_all
  from Cons.IH [OF wr w this] show ?case
    by (simp add: step f g add.assoc)
qed

lemma grand_exact:
  assumes "list_all (\<lambda>kv. wholeBucket (snd kv)) bc"
    and "dayTotal bc < 2 ^ 53" and "amountWeight bc < 2 ^ 53" and "headTotal bc < 2 ^ 53"
  shows "foldl addBucket \<lparr>days = Whole 0, amount = Whole 0, labourCount = Whole 0\<rparr>
           (objectValues bc) = bucketSum bc"
proof -
  let ?z = "\<lparr>days = Whole 0, amount = Whole 0, labourCount = Whole 0\<rparr>"
  have z: "wholeBucket ?z" by (simp add: wholeBucket_def)
  have v: "list_all wholeBucket (objectValues bc)"
    using assms(1) by (rule list_all_objectValues)
  have s: "(\<Sum>v\<leftarrow>objectValues bc. valueOf (days v)) = dayTotal bc"
    "(\<Sum>v\<leftarrow>objectValues bc. valueOf (amount v)) = amountTotal bc"
    "(\<Sum>v\<leftarrow>objectValues bc. valueOf (labourCount v)) = headTotal bc"
    "(\<Sum>v\<leftarrow>objectValues bc. \<bar>valueOf (amount v)\<bar>) = amountWeight bc"
    unfolding dayTotal_def amountTotal_def headTotal_def amountWeight_def
    by (rule sum_list_objectValues)+
  from assms(2-4) have "valueOf (days ?z) + (\<Sum>v\<leftarrow>objectValues bc. valueOf (days v)) < 2 ^ 53"
    "\<bar>valueOf (amount ?z)\<bar> + (\<Sum>v\<leftarrow>objectValues bc. \<bar>valueOf (amount v)\<bar>) < 2 ^ 53"
    "valueOf (labourCount ?z) + (\<Sum>v\<leftarrow>objectValues bc. valueOf (labourCount v)) < 2 ^ 53"
    by (simp_all add: s)
  from foldl_addBucket_exact [OF v z this] show ?thesis
    by (simp add: s bucketSum_def)
qed

lemma assignedId_not_inherited:
  "assignedId ''ctr'' i \<Longrightarrow> i \<notin> set objectPrototypeKeys"
  by (auto simp: assignedId_def objectPrototypeKeys_def)

lemma filter_all: "list_all Q xs \<Longrightarrow> filter Q xs = xs"
  by (induction xs) simp_all

text \<open>
  C1, for totals that double arithmetic adds exactly. Let the platform print the first and
  the last day of the month, and let the number of labourers, the sum of their days present
  and the sum of the magnitudes of their amounts each be below \<open>2^53\<close>. Then
  \<^verbatim>\<open>totals\<close> returns, every call of \<^verbatim>\<open>daysPresentFor\<close> in it returns, the buckets
  per contractor hold whole numbers, and the grand bucket is their componentwise sum. If
  moreover the contractor id of every labourer is an identifier assigned by
  \<^verbatim>\<open>newId("ctr")\<close>, the grand amount is the sum over all labourers of the days present
  times the daily rate, the grand days are the sum of the days present, and the grand head
  count is the number of labourers.
\<close>

theorem totals_grand:
  assumes "toYMD P (startOfMonth P m) \<noteq> None" and "toYMD P (endOfMonth P m) \<noteq> None"
    and "int (length (labours data)) < 2 ^ 53"
    and "(\<Sum>l\<leftarrow>labours data. daysOf P data m l) < 2 ^ 53"
    and "(\<Sum>l\<leftarrow>labours data. \<bar>owed P data m l\<bar>) < 2 ^ 53"
  shows "\<exists>t. totals P data m = Some t
           \<and> list_all (\<lambda>l. daysPresentFor P data (id_l l) m = Some (nat (daysOf P data m l)))
               (labours data)
           \<and> list_all (\<lambda>kv. wholeBucket (snd kv)) (byContractor t)
           \<and> grand t = bucketSum (byContractor t)
           \<and> (list_all (\<lambda>l. assignedId ''ctr'' (contractorId l)) (labours data) \<longrightarrow>
                grand t = \<lparr>days = Whole (\<Sum>l\<leftarrow>labours data. daysOf P data m l),
                           amount = Whole (\<Sum>l\<leftarrow>labours data. owed P data m l),
                           labourCount = Whole (int (length (labours data)))\<rparr>)"
proof -
  have ok: "\<exists>n. daysPresentFor P data lid m = Some n" for lid
    using assms(1,2) by (rule daysPresentFor_Some)
  have d: "list_all (\<lambda>l. daysPresentFor P data (id_l l) m = Some (nat (daysOf P data m l)))
             (labours data)"
    unfolding list_all_iff
  proof
    fix l assume "l \<in> set (labours data)"
    from ok [of "id_l l"] obtain n where "daysPresentFor P data (id_l l) m = Some n" ..
    then show "daysPresentFor P data (id_l l) m = Some (nat (daysOf P data m l))"
      by (simp add: daysOf_def)
  qed
  have e: "list_all (\<lambda>kv. wholeBucket (snd kv)) ([] :: (string \<times> Bucket) list)" by simp
  from assms(3-5) have
    "dayTotal [] + (\<Sum>l\<leftarrow>labours data. daysOf P data m l) < 2 ^ 53"
    "amountWeight [] + (\<Sum>l\<leftarrow>labours data. \<bar>owed P data m l\<bar>) < 2 ^ 53"
    "headTotal [] + int (length (labours data)) < 2 ^ 53"
    by (simp_all add: totals_Nil)
  from totals_loop [OF ok e this] obtain bc where bc:
    "forEach (totalsStep P data m) [] (labours data) = Some bc"
    "list_all (\<lambda>kv. wholeBucket (snd kv)) bc"
    "dayTotal bc = dayTotal [] +
       (\<Sum>l\<leftarrow>filter (\<lambda>l. contractorId l \<notin> set objectPrototypeKeys) (labours data).
          daysOf P data m l)"
    "amountTotal bc = amountTotal [] +
       (\<Sum>l\<leftarrow>filter (\<lambda>l. contractorId l \<notin> set objectPrototypeKeys) (labours data).
          owed P data m l)"
    "headTotal bc = headTotal [] +
       int (length (filter (\<lambda>l. contractorId l \<notin> set objectPrototypeKeys) (labours data)))"
    "dayTotal bc \<le> dayTotal [] + (\<Sum>l\<leftarrow>labours data. daysOf P data m l)"
    "amountWeight bc \<le> amountWeight [] + (\<Sum>l\<leftarrow>labours data. \<bar>owed P data m l\<bar>)"
    "headTotal bc \<le> headTotal [] + int (length (labours data))"
    by blast
  from bc(6-8) assms(3-5) have small: "dayTotal bc < 2 ^ 53" "amountWeight bc < 2 ^ 53"
    "headTotal bc < 2 ^ 53"
    by (simp_all add: totals_Nil)
  let ?t = "\<lparr>byContractor = bc, grand = bucketSum bc\<rparr>"
  have t: "totals P data m = Some ?t"
    by (simp add: totals_def bc(1) Let_def grand_exact [OF bc(2) small])
  have all: "grand ?t = \<lparr>days = Whole (\<Sum>l\<leftarrow>labours data. daysOf P data m l),
                           amount = Whole (\<Sum>l\<leftarrow>labours data. owed P data m l),
                           labourCount = Whole (int (length (labours data)))\<rparr>"
    if "list_all (\<lambda>l. assignedId ''ctr'' (contractorId l)) (labours data)"
  proof -
    from that have "list_all (\<lambda>l. contractorId l \<notin> set objectPrototypeKeys) (labours data)"
      unfolding list_all_iff using assignedId_not_inherited by blast
    then have "filter (\<lambda>l. contractorId l \<notin> set objectPrototypeKeys) (labours data) = labours data"
      by (rule filter_all)
    with bc(3-5) show ?thesis by (simp add: bucketSum_def totals_Nil)
  qed
  from t d bc(2) all show ?thesis by (intro exI [of _ ?t]) simp
qed

lemma march2024_counts:
  "daysOf (fixedOffset 330) demoDoc march2024
     \<lparr>id_l = ''lab_s'', contractorId = ''ctr_a'', name_l = ''Suresh'', dailyRate = 800\<rparr> = 2"
  "daysOf (fixedOffset 330) demoDoc march2024
     \<lparr>id_l = ''lab_t'', contractorId = ''ctr_b'', name_l = ''Tarun'', dailyRate = 650\<rparr> = 1"
  by code_simp+

text \<open>
  The example document in March 2024, with the clock of India: Suresh was present on two
  days at 800, Tarun on one day at 650.
\<close>

theorem totals_grand_witness:
  "toYMD (fixedOffset 330) (startOfMonth (fixedOffset 330) march2024) \<noteq> None
   \<and> toYMD (fixedOffset 330) (endOfMonth (fixedOffset 330) march2024) \<noteq> None
   \<and> list_all (\<lambda>l. assignedId ''ctr'' (contractorId l)) (labours demoDoc)
   \<and> map_option grand (totals (fixedOffset 330) demoDoc march2024) =
       Some \<lparr>days = Whole 3, amount = Whole 2250, labourCount = Whole 2\<rparr>"
proof -
  have h1: "toYMD (fixedOffset 330) (startOfMonth (fixedOffset 330) march2024) \<noteq> None"
    and h2: "toYMD (fixedOffset 330) (endOfMonth (fixedOffset 330) march2024) \<noteq> None"
    by (simp_all add: march2024_ymd)
  have ls: "labours demoDoc =
      [\<lparr>id_l = ''lab_s'', contractorId = ''ctr_a'', name_l = ''Suresh'', dailyRate = 800\<rparr>,
       \<lparr>id_l = ''lab_t'', contractorId = ''ctr_b'', name_l = ''Tarun'', dailyRate = 650\<rparr>]"
    by (simp add: demoDoc_def)
  have h3: "int (length (labours demoDoc)) < 2 ^ 53" unfolding ls by simp
  have s: "(\<Sum>l\<leftarrow>labours demoDoc. daysOf (fixedOffset 330) demoDoc march2024 l) = 3"
    "(\<Sum>l\<leftarrow>labours demoDoc. owed (fixedOffset 330) demoDoc march2024 l) = 2250"
    "(\<Sum>l\<leftarrow>labours demoDoc. \<bar>owed (fixedOffset 330) demoDoc march2024 l\<bar>) = 2250"
    unfolding ls by (simp_all add: owed_def march2024_counts)
  have h4: "(\<Sum>l\<leftarrow>labours demoDoc. daysOf (fixedOffset 330) demoDoc march2024 l) < 2 ^ 53"
    and h5: "(\<Sum>l\<leftarrow>labours demoDoc. \<bar>owed (fixedOffset 330) demoDoc march2024 l\<bar>) < 2 ^ 53"
    unfolding s by simp_all
  have a: "list_all (\<lambda>l. assignedId ''ctr'' (contractorId l)) (labours demoDoc)"
    unfolding ls by (simp add: assignedId_def)
  from totals_grand [OF h1 h2 h3 h4 h5] a obtain t where
    "totals (fixedOffset 330) demoDoc march2024 = Some t"
    "grand t = \<lparr>days = Whole (\<Sum>l\<leftarrow>labours demoDoc. daysOf (fixedOffset 330) demoDoc march2024 l),
                amount = Whole (\<Sum>l\<leftarrow>labours demoDoc. owed (fixedOffset 330) demoDoc march2024 l),
                labourCount = Whole (int (length (labours demoDoc)))\<rparr>"
    by blast
  then have "map_option grand (totals (fixedOffset 330) demoDoc march2024) =
       Some \<lparr>days = Whole 3, amount = Whole 2250, labourCount = Whole 2\<rparr>"
    unfolding s by (simp add: ls)
  with h1 h2 a show ?thesis by simp
qed

text \<open>
  The claim is about every document. Above \<open>2^53\<close> a double cannot hold every integer,
  and the sums of the code are rounded. With a daily rate of \<open>2^53 - 1\<close>, which the form
  accepts, and three days present, the amount owed is 27021597764222973 and the grand
  amount is 27021597764222972. With the rates 1, \<open>2^53\<close>, 1 and 1 under the contractors
  a, b, a and c and one day each, the buckets hold 2, \<open>2^53\<close> and 1, which add up to
  \<open>2^53 + 3\<close>, the sum over the labourers, and the grand amount is \<open>2^53 + 4\<close>.
\<close>

theorem totals_grand_counterexample:
  "reachable largeRateDoc
   \<and> map dailyRate (labours largeRateDoc) = [9007199254740991]
   \<and> (\<Sum>l\<leftarrow>labours largeRateDoc. owed (fixedOffset 330) largeRateDoc march2024 l) =
       27021597764222973
   \<and> map_option grand (totals (fixedOffset 330) largeRateDoc march2024) =
       Some \<lparr>days = Whole 3, amount = Whole 27021597764222972, labourCount = Whole 1\<rparr>
   \<and> (\<Sum>l\<leftarrow>labours mixedRateDoc. owed (fixedOffset 330) mixedRateDoc march2024 l) =
       9007199254740995
   \<and> map_option (\<lambda>t. map (\<lambda>kv. amount (snd kv)) (byContractor t))
       (totals (fixedOffset 330) mixedRateDoc march2024) =
       Some [Whole 2, Whole 9007199254740992, Whole 1]
   \<and> map_option grand (totals (fixedOffset 330) mixedRateDoc march2024) =
       Some \<lparr>days = Whole 4, amount = Whole 9007199254740996, labourCount = Whole 4\<rparr>"
proof -
  have r: "reachable largeRateDoc"
    unfolding largeRateDoc_def
    by (intro reachable.setAttendance reachable.addLabour reachable.addContractor
          reachable.initial)
  have a: "map dailyRate (labours largeRateDoc) = [9007199254740991]" by code_simp
  have b: "(\<Sum>l\<leftarrow>labours largeRateDoc. owed (fixedOffset 330) largeRateDoc march2024 l) =
       27021597764222973"
    by code_simp
  have c: "map_option grand (totals (fixedOffset 330) largeRateDoc march2024) =
       Some \<lparr>days = Whole 3, amount = Whole 27021597764222972, labourCount = Whole 1\<rparr>"
    by code_simp
  have d: "(\<Sum>l\<leftarrow>labours mixedRateDoc. owed (fixedOffset 330) mixedRateDoc march2024 l) =
       9007199254740995"
    by code_simp
  have e: "map_option (\<lambda>t. map (\<lambda>kv. amount (snd kv)) (byContractor t))
       (totals (fixedOffset 330) mixedRateDoc march2024) =
       Some [Whole 2, Whole 9007199254740992, Whole 1]"
    by code_simp
  have f: "map_option grand (totals (fixedOffset 330) mixedRateDoc march2024) =
       Some \<lparr>days = Whole 4, amount = Whole 9007199254740996, labourCount = Whole 4\<rparr>"
    by code_simp
  from r a b c d e f show ?thesis by (simp only: simp_thms)
qed

end
